theory Spec2Isabelle
  imports Main
begin

section \<open>JavaScript values\<close>

text \<open>
  The values the model code handles. A model instance is an object on the heap and is
  named by its address (\<open>JRef\<close>): two references are the same instance exactly when the
  addresses are equal. Raw payload objects (\<open>JObj\<close>, keys in enumeration order) and
  arrays (\<open>JArr\<close>) are kept by value: every array belongs to the one slot or variable
  that holds it. Numbers are the integers and \<open>NaN\<close>; the code looks at a number only
  to test its truthiness or to use it as a key of the identity map.
\<close>

type_synonym addr = nat
type_synonym cname = string

text \<open>
  What the code throws: the errors of the specification's taxonomy, and the \<open>TypeError\<close>
  of the language itself. A thrown error is a value too (\<open>JError\<close>): a promise can be
  rejected with it.
\<close>

datatype error =
    MissingIdentity
  | IdentityImmutable
  | TypeMismatch
  | UnresolvedClass
  | UnknownAssociation
  | MapperContractError
  | CoerceError
  | JSTypeError

datatype jsval =
    JUndefined
  | JNull
  | JBool bool
  | JNum int
  | JNaN
  | JStr string
  | JRef addr
  | JObj "(string \<times> jsval) list"
  | JArr "jsval list"
  | JError error

text \<open>The truthiness test of \<open>if (v)\<close>, \<open>!v\<close> and \<open>a || b\<close>.\<close>

fun truthy :: "jsval \<Rightarrow> bool" where
  "truthy JUndefined = False"
| "truthy JNull = False"
| "truthy (JBool b) = b"
| "truthy (JNum n) = (n \<noteq> 0)"
| "truthy JNaN = False"
| "truthy (JStr s) = (s \<noteq> [])"
| "truthy (JRef a) = True"
| "truthy (JObj kvs) = True"
| "truthy (JArr vs) = True"
| "truthy (JError e) = True"

section \<open>Attribute converters (attrs.js)\<close>

text \<open>\<open>IdentityAttr.coerce(v) { return v; }\<close>\<close>

definition IdentityAttr_coerce :: "jsval \<Rightarrow> error + jsval" where
  "IdentityAttr_coerce v = Inr v"

text \<open>
  The boolean converter exists in two revisions. The file \<open>src/attrs.js\<close> has
  \<open>coerce(v) { return !!v; }\<close>; the later revision has
  \<open>coerce(v) { return v === undefined ? v : !!v; }\<close>.
\<close>

definition BooleanAttr_coerce :: "jsval \<Rightarrow> error + jsval" where
  "BooleanAttr_coerce v = Inr (JBool (truthy v))"

definition BooleanAttr_coerce_rev2 :: "jsval \<Rightarrow> error + jsval" where
  "BooleanAttr_coerce_rev2 v = (if v = JUndefined then Inr v else Inr (JBool (truthy v)))"

section \<open>Instances, the heap and the identity map\<close>

text \<open>
  An instance has its class and its own properties, keyed by the JavaScript property
  name (\<open>__id__\<close>, \<open>__sourceState__\<close>, \<open>__<name>__\<close>, \<open><name>BeforeCoercion\<close>). A
  property that was never written reads as \<open>undefined\<close>.
\<close>

record inst =
  cls :: cname
  slots :: "string \<rightharpoonup> jsval"

text \<open>
  Modelled from the spec: the module \<open>./id_map\<close> (\<open>IdMap.get\<close>, \<open>IdMap.insert\<close>) is
  imported by the model code and is not among the sources. Section 4.1 of the
  specification: a registry from (class, id) to the instance, looked up by exact match
  on class and id, with no eviction; \<open>insert\<close> registers an instance under its class and
  its id.
\<close>

type_synonym idmap = "(cname \<times> jsval) \<rightharpoonup> addr"

record state =
  heap :: "addr \<Rightarrow> inst"
  ids :: idmap
  nxt :: addr

type_synonym 'a res = "(error + 'a) \<times> state"

definition getSlot :: "state \<Rightarrow> addr \<Rightarrow> string \<Rightarrow> jsval" where
  "getSlot s a k = (case slots (heap s a) k of None \<Rightarrow> JUndefined | Some v \<Rightarrow> v)"

definition setSlot :: "addr \<Rightarrow> string \<Rightarrow> jsval \<Rightarrow> state \<Rightarrow> state" where
  "setSlot a k v s =
     s\<lparr>heap := (heap s)(a := (heap s a)\<lparr>slots := (slots (heap s a))(k \<mapsto> v)\<rparr>)\<rparr>"

definition IdMap_get :: "state \<Rightarrow> cname \<Rightarrow> jsval \<Rightarrow> addr option" where
  "IdMap_get s c i = ids s (c, i)"

definition IdMap_insert :: "addr \<Rightarrow> state \<Rightarrow> state" where
  "IdMap_insert a s = s\<lparr>ids := (ids s)((cls (heap s a), getSlot s a ''__id__'') \<mapsto> a)\<rparr>"

text \<open>
  The accessor pair of \<open>id\<close>:
  \<^verbatim>\<open>
  get id() { return this.__id__; }
  set id(id) {
    if (this.__id__) { throw new Error(...overwriting a model's identity is not allowed...); }
    this.__id__ = id;
    IdMap.insert(this);
  }
  \<close>
\<close>

definition get_id :: "state \<Rightarrow> addr \<Rightarrow> jsval" where
  "get_id s a = getSlot s a ''__id__''"

definition set_id :: "jsval \<Rightarrow> addr \<Rightarrow> state \<Rightarrow> unit res" where
  "set_id i a s =
     (if truthy (getSlot s a ''__id__'') then (Inl IdentityImmutable, s)
      else (Inr (), IdMap_insert a (setSlot a ''__id__'' i s)))"

section \<open>Class descriptions\<close>

text \<open>
  What \<open>Model.attr\<close>, \<open>Model.hasOne\<close>, \<open>Model.hasMany\<close> and \<open>Model.registerClass\<close>
  leave behind, as a table. A class lists its proper ancestors (the prototype chain,
  nearest first) and its own declarations, latest first. An attribute carries the
  \<open>coerce\<close> function of its converter and its default (\<open>undefined\<close> when the options
  give none); an association carries its type, its target (a class, or a name looked up
  in \<open>registeredClasses\<close> when it is used) and the name of its inverse.
  A declaration named like a built-in member (\<open>id\<close>, \<open>sourceState\<close>, \<open>isBusy\<close>) shadows
  it, as the property that \<open>Object.defineProperty\<close> puts on the prototype of the
  subclass does.
\<close>

datatype assoc_type = HasOne | HasMany

datatype klass_ref = ByClass cname | ByName string

record assoc_desc =
  atype :: assoc_type
  aname :: string
  klass :: klass_ref
  inverse_name :: "string option"

datatype member =
    Attr "jsval \<Rightarrow> error + jsval" jsval
  | Assoc assoc_type klass_ref "string option"

record class_def =
  ancestors :: "cname list"
  members :: "(string \<times> member) list"

record program =
  classes :: "cname \<rightharpoonup> class_def"
  registeredClasses :: "string \<rightharpoonup> cname"

definition chain :: "program \<Rightarrow> cname \<Rightarrow> cname list" where
  "chain P c = c # (case classes P c of None \<Rightarrow> [] | Some d \<Rightarrow> ancestors d)"

definition all_members :: "program \<Rightarrow> cname \<Rightarrow> (string \<times> member) list" where
  "all_members P c =
     concat (map (\<lambda>c'. case classes P c' of None \<Rightarrow> [] | Some d \<Rightarrow> members d) (chain P c))"

text \<open>The accessor property \<open>k\<close> found on the prototype chain of class \<open>c\<close>.\<close>

definition find_prop :: "program \<Rightarrow> cname \<Rightarrow> string \<Rightarrow> member option" where
  "find_prop P c k = map_of (all_members P c) k"

fun mk_desc :: "string \<Rightarrow> member \<Rightarrow> assoc_desc option" where
  "mk_desc n (Attr f d) = None"
| "mk_desc n (Assoc t r i) = Some \<lparr>atype = t, aname = n, klass = r, inverse_name = i\<rparr>"

text \<open>\<open>this.associations[name]\<close>: the nearest association declared under that name.\<close>

definition associations :: "program \<Rightarrow> cname \<Rightarrow> string \<Rightarrow> assoc_desc option" where
  "associations P c n =
     (case filter (\<lambda>(k, m). k = n \<and> mk_desc k m \<noteq> None) (all_members P c) of
        [] \<Rightarrow> None
      | (k, m) # _ \<Rightarrow> mk_desc k m)"

text \<open>\<open>o instanceof klass\<close>; only a model instance can be one.\<close>

definition instanceof :: "program \<Rightarrow> state \<Rightarrow> jsval \<Rightarrow> cname \<Rightarrow> bool" where
  "instanceof P s v k = (case v of JRef a \<Rightarrow> k \<in> set (chain P (cls (heap s a))) | _ \<Rightarrow> False)"

section \<open>Sequencing with exceptions\<close>

definition ok :: "'a \<Rightarrow> state \<Rightarrow> 'a res" where
  "ok x s = (Inr x, s)"

definition throw :: "error \<Rightarrow> state \<Rightarrow> 'a res" where
  "throw e s = (Inl e, s)"

definition andThen :: "(state \<Rightarrow> 'a res) \<Rightarrow> ('a \<Rightarrow> state \<Rightarrow> 'b res) \<Rightarrow> state \<Rightarrow> 'b res" where
  "andThen m f s = (case m s of (Inl e, s') \<Rightarrow> (Inl e, s') | (Inr x, s') \<Rightarrow> f x s')"

definition modify :: "(state \<Rightarrow> state) \<Rightarrow> state \<Rightarrow> unit res" where
  "modify f s = (Inr (), f s)"

section \<open>Associations (model.js)\<close>

text \<open>
  \<^verbatim>\<open>
  function checkAssociatedType(desc, o) {
    var klass = (typeof desc.klass === 'function') ? desc.klass : registeredClasses[desc.klass];
    if (!klass) { throw new Error(...could not resolve model class...); }
    if (!(o instanceof klass)) { throw new Error(...expected an object of type...); }
  }
  \<close>
\<close>

definition resolveClass :: "program \<Rightarrow> klass_ref \<Rightarrow> cname option" where
  "resolveClass P r = (case r of ByClass c \<Rightarrow> Some c | ByName n \<Rightarrow> registeredClasses P n)"

definition checkAssociatedType :: "program \<Rightarrow> assoc_desc \<Rightarrow> jsval \<Rightarrow> state \<Rightarrow> unit res" where
  "checkAssociatedType P desc v s =
     (case resolveClass P (klass desc) of
        None \<Rightarrow> throw UnresolvedClass s
      | Some k \<Rightarrow> if instanceof P s v k then ok () s else throw TypeMismatch s)"

definition key_of :: "string \<Rightarrow> string" where
  "key_of name = ''__'' @ name @ ''__''"

text \<open>\<open>desc.inverse\<close> where the code tests it: absent or the empty string is falsy.\<close>

definition inv_of :: "assoc_desc \<Rightarrow> string option" where
  "inv_of desc = (case inverse_name desc of None \<Rightarrow> None | Some n \<Rightarrow> if n = [] then None else Some n)"

text \<open>
  The getter of a \<open>hasMany\<close> property,
  \<open>function() { return this[`__${name}__`] = this[`__${name}__`] || []; }\<close>:
  reading the property stores the empty array when the slot is falsy.
\<close>

definition hasManyGet :: "string \<Rightarrow> addr \<Rightarrow> state \<Rightarrow> jsval \<times> state" where
  "hasManyGet name this s =
     (let v = getSlot s this (key_of name); v' = (if truthy v then v else JArr [])
      in (v', setSlot this (key_of name) v' s))"

text \<open>
  \<open>===\<close> as \<open>indexOf\<close> uses it. \<open>NaN\<close> equals nothing; instances are equal when they are
  the same instance.
\<close>

definition strictEq :: "jsval \<Rightarrow> jsval \<Rightarrow> bool" where
  "strictEq x y = (x \<noteq> JNaN \<and> x = y)"

fun indexOf :: "jsval list \<Rightarrow> jsval \<Rightarrow> nat option" where
  "indexOf [] m = None"
| "indexOf (x # xs) m = (if strictEq x m then Some 0 else map_option Suc (indexOf xs m))"

text \<open>\<open>xs.splice(i, 1)\<close>\<close>

definition splice1 :: "nat \<Rightarrow> jsval list \<Rightarrow> jsval list" where
  "splice1 i xs = take i xs @ drop (Suc i) xs"

text \<open>
  \<open>this[name].push(m)\<close>. A slot that holds a truthy value other than an array (it can
  only get there by a write to the private key) has no array methods: a \<open>TypeError\<close>.
\<close>

definition push :: "string \<Rightarrow> jsval \<Rightarrow> addr \<Rightarrow> state \<Rightarrow> unit res" where
  "push name m this s =
     (case hasManyGet name this s of
        (JArr xs, s') \<Rightarrow> ok () (setSlot this (key_of name) (JArr (xs @ [m])) s')
      | (_, s') \<Rightarrow> throw JSTypeError s')"

text \<open>\<open>prev = this[name].slice()\<close>; the copy is never used.\<close>

definition slice :: "string \<Rightarrow> addr \<Rightarrow> state \<Rightarrow> unit res" where
  "slice name this s =
     (case hasManyGet name this s of
        (JArr xs, s') \<Rightarrow> ok () s'
      | (_, s') \<Rightarrow> throw JSTypeError s')"

text \<open>
  The three mutators call each other through \<open>inverseAdded\<close> and \<open>inverseRemoved\<close>, and
  the inner call always passes \<open>sync = false\<close>, which stops the recursion after one
  level. The model follows that: each body takes the notification of the inverse side
  as a parameter \<open>cb\<close>; the bodies with no notification (\<open>sync = false\<close>) come first,
  then \<open>inverseRemoved\<close> and \<open>inverseAdded\<close>, then the functions with \<open>sync\<close>.
  \<^verbatim>\<open>
  function hasOneSet(desc, v, sync) {
    var name = desc.name, key = `__${name}__`, prev = this[key], inv = desc.inverse;
    if (v) { checkAssociatedType.call(this, desc, v); }
    this[key] = v;
    if (sync && inv && prev) { inverseRemoved.call(prev, inv, this); }
    if (sync && inv && v) { inverseAdded.call(v, inv, this); }
  }
  \<close>
\<close>

definition hasOneSet_body ::
  "(jsval \<Rightarrow> state \<Rightarrow> unit res) \<Rightarrow> (jsval \<Rightarrow> state \<Rightarrow> unit res) \<Rightarrow>
   program \<Rightarrow> assoc_desc \<Rightarrow> jsval \<Rightarrow> addr \<Rightarrow> state \<Rightarrow> unit res" where
  "hasOneSet_body removed added P desc v this s =
     (let key = key_of (aname desc); prev = getSlot s this key in
      andThen (if truthy v then checkAssociatedType P desc v else ok ()) (\<lambda>_.
      andThen (modify (setSlot this key v)) (\<lambda>_.
      andThen (if truthy prev then removed prev else ok ()) (\<lambda>_.
      if truthy v then added v else ok ()))) s)"

text \<open>
  \<^verbatim>\<open>
  function hasManyAdd(desc, models, sync) {
    var name = desc.name, prev = this[name].slice();
    for (var m of models) {
      checkAssociatedType.call(this, desc, m);
      if (sync && desc.inverse) { inverseAdded.call(m, desc.inverse, this); }
      this[name].push(m);
    }
  }
  \<close>
\<close>

fun hasManyAdd_loop ::
  "(jsval \<Rightarrow> state \<Rightarrow> unit res) \<Rightarrow> program \<Rightarrow> assoc_desc \<Rightarrow> addr \<Rightarrow> jsval list \<Rightarrow>
   state \<Rightarrow> unit res" where
  "hasManyAdd_loop added P desc this [] s = ok () s"
| "hasManyAdd_loop added P desc this (m # ms) s =
     andThen (checkAssociatedType P desc m) (\<lambda>_.
     andThen (added m) (\<lambda>_.
     andThen (push (aname desc) m this) (\<lambda>_.
     hasManyAdd_loop added P desc this ms))) s"

definition hasManyAdd_body ::
  "(jsval \<Rightarrow> state \<Rightarrow> unit res) \<Rightarrow> program \<Rightarrow> assoc_desc \<Rightarrow> jsval list \<Rightarrow> addr \<Rightarrow>
   state \<Rightarrow> unit res" where
  "hasManyAdd_body added P desc models this =
     andThen (slice (aname desc) this) (\<lambda>_. hasManyAdd_loop added P desc this models)"

text \<open>
  \<^verbatim>\<open>
  function hasManyRemove(desc, models, sync) {
    var name = desc.name, prev = this[name].slice(), i;
    for (var m of models) {
      if ((i = this[name].indexOf(m)) >= 0) {
        if (sync && desc.inverse) { inverseRemoved.call(m, desc.inverse, this); }
        this[name].splice(i, 1);
      }
    }
  }
  \<close>
  The index is computed before the inverse side is notified and used after it.
\<close>

definition spliceAt :: "string \<Rightarrow> nat \<Rightarrow> addr \<Rightarrow> state \<Rightarrow> unit res" where
  "spliceAt name i this s =
     (case hasManyGet name this s of
        (JArr xs, s') \<Rightarrow> ok () (setSlot this (key_of name) (JArr (splice1 i xs)) s')
      | (_, s') \<Rightarrow> throw JSTypeError s')"

fun hasManyRemove_loop ::
  "(jsval \<Rightarrow> state \<Rightarrow> unit res) \<Rightarrow> assoc_desc \<Rightarrow> addr \<Rightarrow> jsval list \<Rightarrow>
   state \<Rightarrow> unit res" where
  "hasManyRemove_loop removed desc this [] s = ok () s"
| "hasManyRemove_loop removed desc this (m # ms) s =
     (case hasManyGet (aname desc) this s of
        (JArr xs, s') \<Rightarrow>
          (case indexOf xs m of
             None \<Rightarrow> hasManyRemove_loop removed desc this ms s'
           | Some i \<Rightarrow>
               andThen (removed m) (\<lambda>_.
               andThen (spliceAt (aname desc) i this) (\<lambda>_.
               hasManyRemove_loop removed desc this ms)) s')
      | (_, s') \<Rightarrow> throw JSTypeError s')"

definition hasManyRemove_body ::
  "(jsval \<Rightarrow> state \<Rightarrow> unit res) \<Rightarrow> assoc_desc \<Rightarrow> jsval list \<Rightarrow> addr \<Rightarrow>
   state \<Rightarrow> unit res" where
  "hasManyRemove_body removed desc models this =
     andThen (slice (aname desc) this) (\<lambda>_. hasManyRemove_loop removed desc this models)"

text \<open>The bodies as the inverse side runs them, with \<open>sync = false\<close>: nobody is notified.\<close>

definition skip :: "jsval \<Rightarrow> state \<Rightarrow> unit res" where
  "skip m = ok ()"

definition hasOneSet0 :: "program \<Rightarrow> assoc_desc \<Rightarrow> jsval \<Rightarrow> addr \<Rightarrow> state \<Rightarrow> unit res" where
  "hasOneSet0 = hasOneSet_body skip skip"

definition hasManyAdd0 :: "program \<Rightarrow> assoc_desc \<Rightarrow> jsval list \<Rightarrow> addr \<Rightarrow> state \<Rightarrow> unit res" where
  "hasManyAdd0 = hasManyAdd_body skip"

definition hasManyRemove0 :: "assoc_desc \<Rightarrow> jsval list \<Rightarrow> addr \<Rightarrow> state \<Rightarrow> unit res" where
  "hasManyRemove0 = hasManyRemove_body skip"

text \<open>
  \<^verbatim>\<open>
  function inverseRemoved(name, model) {
    var desc = this.associations[name];
    if (!desc) { throw new Error(...unknown association...); }
    if (desc.type === 'hasOne') { hasOneSet.call(this, desc, undefined, false); }
    else if (desc.type === 'hasMany') { hasManyRemove.call(this, desc, [model], false); }
  }
  \<close>
  The receiver is the value found on the other side; a value that is not an instance
  has no \<open>associations\<close> to index, which is a \<open>TypeError\<close>.
\<close>

definition inverseRemoved :: "program \<Rightarrow> jsval \<Rightarrow> string \<Rightarrow> addr \<Rightarrow> state \<Rightarrow> unit res" where
  "inverseRemoved P recv name model s =
     (case recv of
        JRef this \<Rightarrow>
          (case associations P (cls (heap s this)) name of
             None \<Rightarrow> throw UnknownAssociation s
           | Some desc \<Rightarrow>
               (case atype desc of
                  HasOne \<Rightarrow> hasOneSet0 P desc JUndefined this s
                | HasMany \<Rightarrow> hasManyRemove0 desc [JRef model] this s))
      | _ \<Rightarrow> throw JSTypeError s)"

text \<open>
  \<^verbatim>\<open>
  function inverseAdded(name, model) {
    var desc = this.associations[name];
    if (!desc) { throw new Error(...unknown association...); }
    if (desc.type === 'hasOne') { hasOneSet.call(this, desc, model, false); }
    else if (desc.type === 'hasMany') { hasManyAdd.call(this, desc, [model], false); }
  }
  \<close>
\<close>

definition inverseAdded :: "program \<Rightarrow> jsval \<Rightarrow> string \<Rightarrow> addr \<Rightarrow> state \<Rightarrow> unit res" where
  "inverseAdded P recv name model s =
     (case recv of
        JRef this \<Rightarrow>
          (case associations P (cls (heap s this)) name of
             None \<Rightarrow> throw UnknownAssociation s
           | Some desc \<Rightarrow>
               (case atype desc of
                  HasOne \<Rightarrow> hasOneSet0 P desc (JRef model) this s
                | HasMany \<Rightarrow> hasManyAdd0 P desc [JRef model] this s))
      | _ \<Rightarrow> throw JSTypeError s)"

text \<open>The notifications a mutator sends when \<open>sync && desc.inverse\<close> holds.\<close>

definition notifyRemoved :: "program \<Rightarrow> assoc_desc \<Rightarrow> bool \<Rightarrow> addr \<Rightarrow> jsval \<Rightarrow> state \<Rightarrow> unit res" where
  "notifyRemoved P desc sync this m =
     (case inv_of desc of
        Some iv \<Rightarrow> if sync then inverseRemoved P m iv this else ok ()
      | None \<Rightarrow> ok ())"

definition notifyAdded :: "program \<Rightarrow> assoc_desc \<Rightarrow> bool \<Rightarrow> addr \<Rightarrow> jsval \<Rightarrow> state \<Rightarrow> unit res" where
  "notifyAdded P desc sync this m =
     (case inv_of desc of
        Some iv \<Rightarrow> if sync then inverseAdded P m iv this else ok ()
      | None \<Rightarrow> ok ())"

definition hasOneSet :: "program \<Rightarrow> assoc_desc \<Rightarrow> jsval \<Rightarrow> bool \<Rightarrow> addr \<Rightarrow> state \<Rightarrow> unit res" where
  "hasOneSet P desc v sync this =
     hasOneSet_body (notifyRemoved P desc sync this) (notifyAdded P desc sync this) P desc v this"

definition hasManyAdd :: "program \<Rightarrow> assoc_desc \<Rightarrow> jsval list \<Rightarrow> bool \<Rightarrow> addr \<Rightarrow> state \<Rightarrow> unit res" where
  "hasManyAdd P desc models sync this =
     hasManyAdd_body (notifyAdded P desc sync this) P desc models this"

definition hasManyRemove :: "program \<Rightarrow> assoc_desc \<Rightarrow> jsval list \<Rightarrow> bool \<Rightarrow> addr \<Rightarrow> state \<Rightarrow> unit res" where
  "hasManyRemove P desc models sync this =
     hasManyRemove_body (notifyRemoved P desc sync this) desc models this"

text \<open>
  \<^verbatim>\<open>
  function hasManySet(desc, a) {
    var name = desc.name, prev = this[name], m;
    for (m of a) { checkAssociatedType.call(this, desc, m); }
    if (desc.inverse) {
      for (m of prev) { inverseRemoved.call(m, desc.inverse, this); }
      for (m of a) { inverseAdded.call(m, desc.inverse, this); }
    }
    this[`__${name}__`] = a;
  }
  \<close>
  \<open>for (m of a)\<close> needs an iterable: an array, or a string (its characters).
  The loop over \<open>prev\<close> walks the array that is in the slot while the calls it makes
  may remove from that same array (an instance that is a member of its own
  collection, the association being its own inverse): it reads the slot at every step
  and stops at the current length. The array never grows in this loop, so it runs at
  most as many steps as the array was long at the start.
\<close>

definition iterate :: "jsval \<Rightarrow> jsval list option" where
  "iterate a =
     (case a of JArr xs \<Rightarrow> Some xs | JStr cs \<Rightarrow> Some (map (\<lambda>c. JStr [c]) cs) | _ \<Rightarrow> None)"

fun checkAll :: "program \<Rightarrow> assoc_desc \<Rightarrow> jsval list \<Rightarrow> state \<Rightarrow> unit res" where
  "checkAll P desc [] s = ok () s"
| "checkAll P desc (m # ms) s = andThen (checkAssociatedType P desc m) (\<lambda>_. checkAll P desc ms) s"

fun detach_loop :: "program \<Rightarrow> string \<Rightarrow> addr \<Rightarrow> string \<Rightarrow> nat \<Rightarrow> nat \<Rightarrow> state \<Rightarrow> unit res" where
  "detach_loop P iv this key 0 i s = ok () s"
| "detach_loop P iv this key (Suc n) i s =
     (case getSlot s this key of
        JArr xs \<Rightarrow>
          if i < length xs
          then andThen (inverseRemoved P (xs ! i) iv this)
                 (\<lambda>_. detach_loop P iv this key n (Suc i)) s
          else ok () s
      | _ \<Rightarrow> ok () s)"

fun attach_loop :: "program \<Rightarrow> string \<Rightarrow> addr \<Rightarrow> jsval list \<Rightarrow> state \<Rightarrow> unit res" where
  "attach_loop P iv this [] s = ok () s"
| "attach_loop P iv this (m # ms) s =
     andThen (inverseAdded P m iv this) (\<lambda>_. attach_loop P iv this ms) s"

definition hasManySet :: "program \<Rightarrow> assoc_desc \<Rightarrow> jsval \<Rightarrow> addr \<Rightarrow> state \<Rightarrow> unit res" where
  "hasManySet P desc a this s =
     (case hasManyGet (aname desc) this s of
        (prev, s1) \<Rightarrow>
          (case iterate a of
             None \<Rightarrow> throw JSTypeError s1
           | Some ms \<Rightarrow>
               andThen (checkAll P desc ms) (\<lambda>_.
               andThen
                 (case inv_of desc of
                    None \<Rightarrow> ok ()
                  | Some iv \<Rightarrow>
                      (case prev of
                         JArr xs \<Rightarrow>
                           andThen (detach_loop P iv this (key_of (aname desc)) (length xs) 0)
                             (\<lambda>_. attach_loop P iv this ms)
                       | _ \<Rightarrow> throw JSTypeError)) (\<lambda>_.
               modify (setSlot this (key_of (aname desc)) a))) s1))"

section \<open>The loader (model.js)\<close>

text \<open>
  The attribute accessors that \<open>Model.attr\<close> defines:
  \<^verbatim>\<open>
  get: function() { return this[key] === undefined ? def : this[key]; },
  set: function(v) { this[key] = converter.coerce(v); this[`${name}BeforeCoercion`] = v; }
  \<close>
  A converter that throws leaves the instance as it was.
\<close>

definition attrGet :: "jsval \<Rightarrow> string \<Rightarrow> addr \<Rightarrow> state \<Rightarrow> jsval" where
  "attrGet dflt name this s =
     (if getSlot s this (key_of name) = JUndefined then dflt else getSlot s this (key_of name))"

definition attrSet :: "(jsval \<Rightarrow> error + jsval) \<Rightarrow> string \<Rightarrow> jsval \<Rightarrow> addr \<Rightarrow> state \<Rightarrow> unit res" where
  "attrSet coerce name v this s =
     (case coerce v of
        Inl e \<Rightarrow> throw e s
      | Inr w \<Rightarrow> ok () (setSlot this (name @ ''BeforeCoercion'') v (setSlot this (key_of name) w s)))"

text \<open>\<open>function capitalize(s) { return s.charAt(0).toUpperCase() + s.slice(1); }\<close>, on ASCII.\<close>

definition toUpperCase :: "char \<Rightarrow> char" where
  "toUpperCase c =
     (if (of_char c :: nat) \<ge> 97 \<and> (of_char c :: nat) \<le> 122 then char_of ((of_char c :: nat) - 32) else c)"

fun capitalize :: "string \<Rightarrow> string" where
  "capitalize [] = []"
| "capitalize (c # cs) = toUpperCase c # cs"

text \<open>
  The names an instance answers to without a declaration: the members of
  \<open>Model.prototype\<close> and of \<open>Object.prototype\<close>, and the three methods \<open>Model.hasMany\<close>
  generates for each of its associations.
\<close>

definition builtin_names :: "string list" where
  "builtin_names =
     [''id'', ''sourceState'', ''isBusy'', ''constructor'', ''toString'', ''associations'',
      ''hasOwnProperty'', ''isPrototypeOf'', ''propertyIsEnumerable'', ''toLocaleString'',
      ''valueOf'', ''__defineGetter__'', ''__defineSetter__'', ''__lookupGetter__'',
      ''__lookupSetter__'', ''__proto__'']"

fun generated_names :: "string \<times> member \<Rightarrow> string list" where
  "generated_names (n, Assoc HasMany r i) =
     [''add'' @ capitalize n, ''remove'' @ capitalize n, ''clear'' @ capitalize n]"
| "generated_names (n, m) = []"

text \<open>\<open>k in model\<close>\<close>

definition inModel :: "program \<Rightarrow> state \<Rightarrow> addr \<Rightarrow> string \<Rightarrow> bool" where
  "inModel P s this k =
     (slots (heap s this) k \<noteq> None \<or>
      find_prop P (cls (heap s this)) k \<noteq> None \<or>
      k \<in> set builtin_names \<or>
      k \<in> set (concat (map generated_names (all_members P (cls (heap s this))))))"

text \<open>
  \<open>model[k] = v\<close>. A declared attribute or association runs its setter; \<open>id\<close> runs the
  setter of \<open>id\<close>; \<open>sourceState\<close> and \<open>isBusy\<close> have a getter only, and assigning to them
  is a \<open>TypeError\<close> in strict code; any other name becomes a property of the instance
  (writing \<open>associations\<close> or \<open>__proto__\<close> this way would change how the instance finds
  its declarations, which the class table here does not follow).
\<close>

definition setProp :: "program \<Rightarrow> string \<Rightarrow> jsval \<Rightarrow> addr \<Rightarrow> state \<Rightarrow> unit res" where
  "setProp P k v this s =
     (case find_prop P (cls (heap s this)) k of
        Some (Attr coerce dflt) \<Rightarrow> attrSet coerce k v this s
      | Some (Assoc HasOne r i) \<Rightarrow>
          hasOneSet P \<lparr>atype = HasOne, aname = k, klass = r, inverse_name = i\<rparr> v True this s
      | Some (Assoc HasMany r i) \<Rightarrow>
          hasManySet P \<lparr>atype = HasMany, aname = k, klass = r, inverse_name = i\<rparr> v this s
      | None \<Rightarrow>
          if k = ''id'' then set_id v this s
          else if k = ''sourceState'' \<or> k = ''isBusy'' then throw JSTypeError s
          else ok () (setSlot this k v s))"

text \<open>
  Reading \<open>model[k]\<close> where \<open>k\<close> is a declared property, one of the three built-in
  accessors, or a property of the instance. A declared attribute or association runs its
  getter (that of a \<open>hasMany\<close> stores the empty array in a falsy slot).
\<close>

definition getProp :: "program \<Rightarrow> string \<Rightarrow> addr \<Rightarrow> state \<Rightarrow> jsval \<times> state" where
  "getProp P k this s =
     (case find_prop P (cls (heap s this)) k of
        Some (Attr coerce dflt) \<Rightarrow> (attrGet dflt k this s, s)
      | Some (Assoc HasOne r i) \<Rightarrow> (getSlot s this (key_of k), s)
      | Some (Assoc HasMany r i) \<Rightarrow> hasManyGet k this s
      | None \<Rightarrow>
          if k = ''id'' then (get_id s this, s)
          else if k = ''sourceState'' \<or> k = ''isBusy'' then (getSlot s this (key_of k), s)
          else (getSlot s this k, s))"

text \<open>
  \<^verbatim>\<open>for (let k in attrs) { if (k in model) { model[k] = attrs[k]; } }\<close>
  The list gives the keys of the object once each, in enumeration order.
\<close>

fun assign_all :: "program \<Rightarrow> addr \<Rightarrow> (string \<times> jsval) list \<Rightarrow> state \<Rightarrow> unit res" where
  "assign_all P this [] s = ok () s"
| "assign_all P this ((k, v) # kvs) s =
     andThen (if inModel P s this k then setProp P k v this else ok ())
       (\<lambda>_. assign_all P this kvs) s"

text \<open>\<open>new this\<close>: the next free address becomes an instance of the class, with no property.\<close>

definition allocate :: "cname \<Rightarrow> state \<Rightarrow> state" where
  "allocate c s = s\<lparr>heap := (heap s)(nxt s := \<lparr>cls = c, slots = Map.empty\<rparr>), nxt := Suc (nxt s)\<rparr>"

definition new_inst :: "cname \<Rightarrow> state \<Rightarrow> addr \<times> state" where
  "new_inst c s = (nxt s, allocate c s)"

text \<open>
  \<^verbatim>\<open>constructor(attrs) { for (let k in attrs) { if (k in this) { this[k] = attrs[k]; } } }\<close>
\<close>

definition construct :: "program \<Rightarrow> cname \<Rightarrow> (string \<times> jsval) list \<Rightarrow> state \<Rightarrow> addr res" where
  "construct P c attrs s =
     (case new_inst c s of (a, s1) \<Rightarrow> andThen (assign_all P a attrs) (\<lambda>_. ok a) s1)"

definition EMPTY :: jsval where "EMPTY = JStr ''empty''"
definition LOADED :: jsval where "LOADED = JStr ''loaded''"

text \<open>
  \<^verbatim>\<open>
  static empty(id) {
    var model = new this({id: id});
    model.__sourceState__ = EMPTY;
    return model;
  }
  static local(id) { return IdMap.get(this, id) || this.empty(id); }
  \<close>
\<close>

definition empty_model :: "program \<Rightarrow> cname \<Rightarrow> jsval \<Rightarrow> state \<Rightarrow> addr res" where
  "empty_model P c i =
     andThen (construct P c [(''id'', i)]) (\<lambda>model.
     andThen (modify (setSlot model ''__sourceState__'' EMPTY)) (\<lambda>_. ok model))"

definition local_model :: "program \<Rightarrow> cname \<Rightarrow> jsval \<Rightarrow> state \<Rightarrow> addr res" where
  "local_model P c i s =
     (case IdMap_get s c i of Some a \<Rightarrow> ok a s | None \<Rightarrow> empty_model P c i s)"

text \<open>
  \<^verbatim>\<open>
  static load(attrs) {
    var id = attrs.id, model;
    if (!id) { throw new Error(`${this}.load: an \`id\` attribute is required`); }
    attrs = Object.assign({}, attrs);
    model = IdMap.get(this, id) || new this;
    delete attrs.id;
    // set non-association attributes
    for (let k in attrs) { if (k in model) { model[k] = attrs[k]; } }
    // set id if necessary
    if (model.id === undefined) { model.id = id; }
    model.__sourceState__ = LOADED;
    model.__isBusy__      = false;
    return model;
  }
  \<close>
  \<open>model.id\<close> is an ordinary property access: it reaches the accessor pair of \<open>id\<close>
  unless the class declares a property of that name.
\<close>

definition payload_get :: "(string \<times> jsval) list \<Rightarrow> string \<Rightarrow> jsval" where
  "payload_get attrs k = (case map_of attrs k of None \<Rightarrow> JUndefined | Some v \<Rightarrow> v)"

definition load :: "program \<Rightarrow> cname \<Rightarrow> (string \<times> jsval) list \<Rightarrow> state \<Rightarrow> addr res" where
  "load P c attrs s =
     (let i = payload_get attrs ''id'' in
      if \<not> truthy i then throw MissingIdentity s
      else
        andThen (case IdMap_get s c i of Some a \<Rightarrow> ok a | None \<Rightarrow> construct P c []) (\<lambda>model.
        andThen (assign_all P model (filter (\<lambda>(k, v). k \<noteq> ''id'') attrs)) (\<lambda>_.
        andThen (\<lambda>s'. case getProp P ''id'' model s' of
                        (v, t) \<Rightarrow> if v = JUndefined then setProp P ''id'' i model t else ok () t) (\<lambda>_.
        andThen (modify (setSlot model ''__sourceState__'' LOADED)) (\<lambda>_.
        andThen (modify (setSlot model ''__isBusy__'' (JBool False))) (\<lambda>_.
        ok model))))) s)"

section \<open>Reading the model\<close>

text \<open>What reading a \<open>hasMany\<close> property returns: the array in the slot, or the empty array.\<close>

definition hasManyRead :: "string \<Rightarrow> addr \<Rightarrow> state \<Rightarrow> jsval" where
  "hasManyRead name this s = fst (hasManyGet name this s)"

definition elems :: "jsval \<Rightarrow> jsval list" where
  "elems v = (case v of JArr xs \<Rightarrow> xs | _ \<Rightarrow> [])"

text \<open>\<open>indexOf\<close> followed by \<open>splice\<close> at the index found.\<close>

definition removeFirst :: "jsval list \<Rightarrow> jsval \<Rightarrow> jsval list" where
  "removeFirst xs m = (case indexOf xs m of None \<Rightarrow> xs | Some i \<Rightarrow> splice1 i xs)"

section \<open>Relations between states, for the proofs\<close>

text \<open>
  \<open>touch a k s s'\<close>: the state changed at most in the slot \<open>k\<close> of instance \<open>a\<close>.
  \<open>pres R m\<close>: whatever the operation \<open>m\<close> returns or throws, the state it leaves is
  related by \<open>R\<close> to the state it started in. \<open>writes R a k\<close>: a write to slot \<open>k\<close> of
  \<open>a\<close> stays inside \<open>R\<close>.
\<close>

definition touch :: "addr \<Rightarrow> string \<Rightarrow> state \<Rightarrow> state \<Rightarrow> bool" where
  "touch a k s s' = (s' = s \<or> (\<exists>w. s' = setSlot a k w s))"

definition pres :: "(state \<Rightarrow> state \<Rightarrow> bool) \<Rightarrow> (state \<Rightarrow> 'a res) \<Rightarrow> bool" where
  "pres R m = (\<forall>s r s'. m s = (r, s') \<longrightarrow> R s s')"

definition writes :: "(state \<Rightarrow> state \<Rightarrow> bool) \<Rightarrow> addr \<Rightarrow> string \<Rightarrow> bool" where
  "writes R a k = (\<forall>s v. R s (setSlot a k v s))"

definition preorder :: "(state \<Rightarrow> state \<Rightarrow> bool) \<Rightarrow> bool" where
  "preorder R = ((\<forall>s. R s s) \<and> (\<forall>s t u. R s t \<longrightarrow> R t u \<longrightarrow> R s u))"

text \<open>Some class declares an association under the name \<open>n\<close>.\<close>

definition declared_assoc :: "program \<Rightarrow> string \<Rightarrow> bool" where
  "declared_assoc P n = (\<exists>c d. associations P c n = Some d)"

section \<open>Example programs and scenarios\<close>

text \<open>
  The classes of the test suite's association examples. \<open>one_many\<close>:
  \<open>Foo.hasOne('bar', Bar, {inverse: 'foos'}); Bar.hasMany('foos', Foo, {inverse: 'bar'})\<close>.
  \<open>many_many\<close>:
  \<open>Foo.hasMany('bars', Bar, {inverse: 'foos'}); Bar.hasMany('foos', Foo, {inverse: 'bars'})\<close>.
  \<open>two_fresh\<close> is the state after \<open>f = new Foo\<close> (address 0) and \<open>b = new Bar\<close>
  (address 1).
\<close>

definition one_many :: program where
  "one_many = \<lparr>classes = [
      ''Foo'' \<mapsto> \<lparr>ancestors = [], members = [(''bar'', Assoc HasOne (ByClass ''Bar'') (Some ''foos''))]\<rparr>,
      ''Bar'' \<mapsto> \<lparr>ancestors = [], members = [(''foos'', Assoc HasMany (ByClass ''Foo'') (Some ''bar''))]\<rparr>],
     registeredClasses = Map.empty\<rparr>"

definition many_many :: program where
  "many_many = \<lparr>classes = [
      ''Foo'' \<mapsto> \<lparr>ancestors = [], members = [(''bars'', Assoc HasMany (ByClass ''Bar'') (Some ''foos''))]\<rparr>,
      ''Bar'' \<mapsto> \<lparr>ancestors = [], members = [(''foos'', Assoc HasMany (ByClass ''Foo'') (Some ''bars''))]\<rparr>],
     registeredClasses = Map.empty\<rparr>"

definition Foo_bar :: assoc_desc where
  "Foo_bar = \<lparr>atype = HasOne, aname = ''bar'', klass = ByClass ''Bar'', inverse_name = Some ''foos''\<rparr>"
definition Bar_foos :: assoc_desc where
  "Bar_foos = \<lparr>atype = HasMany, aname = ''foos'', klass = ByClass ''Foo'', inverse_name = Some ''bar''\<rparr>"
definition Foo_bars :: assoc_desc where
  "Foo_bars = \<lparr>atype = HasMany, aname = ''bars'', klass = ByClass ''Bar'', inverse_name = Some ''foos''\<rparr>"
definition Bar_foos2 :: assoc_desc where
  "Bar_foos2 = \<lparr>atype = HasMany, aname = ''foos'', klass = ByClass ''Foo'', inverse_name = Some ''bars''\<rparr>"

definition two_fresh :: state where
  "two_fresh = \<lparr>heap = (\<lambda>a. \<lparr>cls = (if a = 0 then ''Foo'' else ''Bar''), slots = Map.empty\<rparr>),
                ids = Map.empty, nxt = 2\<rparr>"

text \<open>
  \<open>f.bar = b; f.bar = undefined\<close> from the fresh state, and
  \<open>b.addFoos(f, f); f.bar = b; f.bar = null\<close>.
\<close>

definition c3_w1 :: state where "c3_w1 = snd (hasOneSet one_many Foo_bar (JRef 1) True 0 two_fresh)"
definition c3_w2 :: state where "c3_w2 = snd (hasOneSet one_many Foo_bar JUndefined True 0 c3_w1)"
definition c3_x1 :: state where "c3_x1 = snd (hasManyAdd one_many Bar_foos [JRef 0, JRef 0] True 1 two_fresh)"
definition c3_x2 :: state where "c3_x2 = snd (hasOneSet one_many Foo_bar (JRef 1) True 0 c3_x1)"
definition c3_x3 :: state where "c3_x3 = snd (hasOneSet one_many Foo_bar JNull True 0 c3_x2)"


text \<open>
  A symmetric association that is its own inverse:
  \<open>Foo.hasMany('friends', Foo, {inverse: 'friends'})\<close>; \<open>two_foos\<close> is the state after
  \<open>f = new Foo\<close> (address 0) and \<open>g = new Foo\<close> (address 1). The scenario is
  \<open>f.friends = [f, g]; f.friends = []\<close>.
\<close>

definition friends :: program where
  "friends = \<lparr>classes = [
      ''Foo'' \<mapsto> \<lparr>ancestors = [], members = [(''friends'', Assoc HasMany (ByClass ''Foo'') (Some ''friends''))]\<rparr>],
     registeredClasses = Map.empty\<rparr>"

definition Foo_friends :: assoc_desc where
  "Foo_friends = \<lparr>atype = HasMany, aname = ''friends'', klass = ByClass ''Foo'', inverse_name = Some ''friends''\<rparr>"

definition two_foos :: state where
  "two_foos = \<lparr>heap = (\<lambda>a. \<lparr>cls = ''Foo'', slots = Map.empty\<rparr>), ids = Map.empty, nxt = 2\<rparr>"

definition c5_s1 :: state where
  "c5_s1 = snd (hasManySet friends Foo_friends (JArr [JRef 0, JRef 1]) 0 two_foos)"

definition c5_s2 :: state where
  "c5_s2 = snd (hasManySet friends Foo_friends (JArr []) 0 c5_s1)"




text \<open>
  A class in the manner of the test suite's \<open>BasicModel\<close>, with one attribute of the
  registered type \<open>identity\<close> and one of the type \<open>boolean\<close>, and the associations of the
  test suite's \<open>Author\<close>, \<open>Post\<close> and \<open>Tag\<close>:
  \<open>Author.hasMany('posts', 'Post', {inverse: 'author'})\<close>,
  \<open>Post.hasOne('author', 'Author', {inverse: 'posts'})\<close>,
  \<open>Post.hasMany('tags', 'Tag', {inverse: 'posts'})\<close>,
  \<open>Tag.hasMany('posts', 'Post', {inverse: 'tags'})\<close>.
  In \<open>no_instances\<close> nothing is allocated and nothing is registered.
\<close>

definition basic :: program where
  "basic = \<lparr>classes = [
      ''BasicModel'' \<mapsto> \<lparr>ancestors = [],
         members = [(''flag'', Attr BooleanAttr_coerce JUndefined),
                    (''str'', Attr IdentityAttr_coerce JUndefined)]\<rparr>],
     registeredClasses = [''BasicModel'' \<mapsto> ''BasicModel'']\<rparr>"

definition blog :: program where
  "blog = \<lparr>classes = [
      ''Author'' \<mapsto> \<lparr>ancestors = [],
         members = [(''posts'', Assoc HasMany (ByName ''Post'') (Some ''author''))]\<rparr>,
      ''Post'' \<mapsto> \<lparr>ancestors = [],
         members = [(''tags'', Assoc HasMany (ByName ''Tag'') (Some ''posts'')),
                    (''author'', Assoc HasOne (ByName ''Author'') (Some ''posts''))]\<rparr>,
      ''Tag'' \<mapsto> \<lparr>ancestors = [],
         members = [(''posts'', Assoc HasMany (ByName ''Post'') (Some ''tags''))]\<rparr>],
     registeredClasses = [''Author'' \<mapsto> ''Author'', ''Post'' \<mapsto> ''Post'', ''Tag'' \<mapsto> ''Tag'']\<rparr>"


definition no_instances :: state where
  "no_instances = \<lparr>heap = (\<lambda>a. \<lparr>cls = ''Object'', slots = Map.empty\<rparr>), ids = Map.empty, nxt = 0\<rparr>"

text \<open>
  \<open>BasicModel.load({id: 200, str: 's1'})\<close>, then \<open>BasicModel.load({id: 200, str: 's2'})\<close>.
\<close>

definition c1_s1 :: state where
  "c1_s1 = snd (load basic ''BasicModel'' [(''id'', JNum 200), (''str'', JStr ''s1'')] no_instances)"

definition c1_s2 :: state where
  "c1_s2 = snd (load basic ''BasicModel'' [(''id'', JNum 200), (''str'', JStr ''s2'')] c1_s1)"

text \<open>
  The payloads of the test suite's nested loads:
  \<open>Post.load({id: 184, author: {id: 9, first: 'Homer'}})\<close>,
  \<open>Post.load({id: 185, author: 11})\<close>, \<open>Post.load({id: 187, authorId: 13})\<close> and
  \<open>Post.load({id: 200, tags: [{id: 10}, {id: 11}]})\<close>.
\<close>

definition nested_author :: "(string \<times> jsval) list" where
  "nested_author = [(''id'', JNum 184), (''author'', JObj [(''id'', JNum 9), (''first'', JStr ''Homer'')])]"

definition author_by_id :: "(string \<times> jsval) list" where
  "author_by_id = [(''id'', JNum 185), (''author'', JNum 11)]"

definition author_by_key :: "(string \<times> jsval) list" where
  "author_by_key = [(''id'', JNum 187), (''authorId'', JNum 13)]"

definition nested_tags :: "(string \<times> jsval) list" where
  "nested_tags = [(''id'', JNum 200), (''tags'', JArr [JObj [(''id'', JNum 10)], JObj [(''id'', JNum 11)]])]"

section \<open>The query array and its promises\<close>

text \<open>
  The promises of the language, as far as \<open>QueryArray\<close> uses them. A promise is pending
  or settled with an outcome; \<open>p.then(...)\<close> makes a new promise and either waits on \<open>p\<close>
  or, when \<open>p\<close> is settled, queues the callback as a job; settling a promise queues the
  callbacks that wait on it, in the order they were attached; jobs run one at a time,
  first in, first out. The callbacks are those of this program: the pair that \<open>query\<close>
  attaches to the promise of the mapper (\<open>QueryDone\<close>), the callback that issues the
  queued request (\<open>Chain\<close>, which has no rejection callback), a caller's
  \<open>then(f1, f2)\<close> or \<open>catch(f)\<close> (\<open>Consumer\<close>, with a number to tell callers apart and two
  flags: is there a fulfilment callback, is there a rejection callback), and the step by
  which a promise takes on the outcome of a promise that a callback returned (\<open>Adopt\<close>).
\<close>

type_synonym pid = nat

datatype outcome = Fulfilled jsval | Rejected jsval

datatype handler = QueryDone | Chain | Consumer nat bool bool | Adopt

datatype job = React handler pid outcome | Thenable pid pid

record promise =
  settled :: "outcome option"
  reactions :: "(handler \<times> pid) list"

text \<open>
  What the mapper of the class is like: absent, without a \<open>query\<close> method, with a \<open>query\<close>
  that returns something that is not a promise, or with a \<open>query\<close> that returns a new
  pending promise (which the mapper settles later).
\<close>

datatype mapper = NoMapper | NoQueryMethod | ReturnsNonPromise | ReturnsPromise

text \<open>
  One \<open>QueryArray\<close> and its surroundings: the model instances, the mapper, the
  properties \<open>__isBusy__\<close>, \<open>__queued__\<close> (absent or a value), \<open>__error__\<close> and
  \<open>__promise__\<close>, the elements of the array, the promises, the job queue, the arguments
  of the calls of \<open>mapper.query\<close> so far with the promises it returned, and the calls
  of callers' callbacks so far.
\<close>

record world =
  models :: state
  mapper_of :: mapper
  busy :: bool
  queued :: "jsval option"
  error_of :: "jsval option"
  elements :: "jsval list"
  current :: pid
  promises :: "pid \<Rightarrow> promise"
  next_pid :: pid
  jobs :: "job list"
  calls :: "jsval list"
  requests :: "pid list"
  heard :: "(nat \<times> outcome) list"

definition new_promise :: "outcome option \<Rightarrow> world \<Rightarrow> pid \<times> world" where
  "new_promise oc w =
     (next_pid w,
      w\<lparr>promises := (promises w)(next_pid w := \<lparr>settled = oc, reactions = []\<rparr>),
        next_pid := Suc (next_pid w)\<rparr>)"

definition enqueue :: "job \<Rightarrow> world \<Rightarrow> world" where
  "enqueue j w = w\<lparr>jobs := jobs w @ [j]\<rparr>"

definition add_reaction :: "pid \<Rightarrow> handler \<times> pid \<Rightarrow> world \<Rightarrow> world" where
  "add_reaction p r w =
     w\<lparr>promises := (promises w)(p := (promises w p)\<lparr>reactions := reactions (promises w p) @ [r]\<rparr>)\<rparr>"

text \<open>\<open>p.then(...)\<close> with the callbacks \<open>h\<close>; returns the new promise.\<close>

definition then_p :: "pid \<Rightarrow> handler \<Rightarrow> world \<Rightarrow> pid \<times> world" where
  "then_p p h w =
     (case new_promise None w of
        (d, w1) \<Rightarrow>
          (case settled (promises w1 p) of
             None \<Rightarrow> (d, add_reaction p (h, d) w1)
           | Some oc \<Rightarrow> (d, enqueue (React h d oc) w1)))"

text \<open>Settling a promise; a promise that is settled stays as it is.\<close>

definition settle :: "pid \<Rightarrow> outcome \<Rightarrow> world \<Rightarrow> world" where
  "settle p oc w =
     (case settled (promises w p) of
        Some _ \<Rightarrow> w
      | None \<Rightarrow>
          w\<lparr>promises := (promises w)(p := \<lparr>settled = Some oc, reactions = []\<rparr>),
            jobs := jobs w @ map (\<lambda>(h, d). React h d oc) (reactions (promises w p))\<rparr>)"

text \<open>
  A callback returned the promise \<open>q\<close>: the promise \<open>d\<close> of the \<open>then\<close> takes on the
  outcome of \<open>q\<close>, in a job of its own; a promise cannot be resolved with itself.
\<close>

definition resolve_with :: "pid \<Rightarrow> pid \<Rightarrow> world \<Rightarrow> world" where
  "resolve_with d q w =
     (if q = d then settle d (Rejected (JError JSTypeError)) w else enqueue (Thenable d q) w)"

text \<open>
  Modelled from the spec: \<open>Model._callMapper\<close> is called by \<open>QueryArray#query\<close> and is
  not among the sources. Section 4.6 of the specification: it invokes the external
  mapper's \<open>query(options)\<close>, which must return a promise-like value, and fails with a
  descriptive error if the class has no mapper, the mapper lacks a \<open>query\<close> method, or
  the method's return value is not promise-like.
\<close>

definition callMapper :: "jsval \<Rightarrow> world \<Rightarrow> (error + pid) \<times> world" where
  "callMapper opts w =
     (case mapper_of w of
        NoMapper \<Rightarrow> (Inl MapperContractError, w)
      | NoQueryMethod \<Rightarrow> (Inl MapperContractError, w)
      | ReturnsNonPromise \<Rightarrow> (Inl MapperContractError, w\<lparr>calls := calls w @ [opts]\<rparr>)
      | ReturnsPromise \<Rightarrow>
          (case new_promise None (w\<lparr>calls := calls w @ [opts]\<rparr>) of
             (m, w1) \<Rightarrow> (Inr m, w1\<lparr>requests := requests w1 @ [m]\<rparr>)))"

text \<open>
  Modelled from the spec: \<open>Model.loadAll\<close> is called by \<open>QueryArray#query\<close> and is not
  among the sources. Section 4.5 of the specification: \<open>loadAll(array)\<close> applies \<open>load\<close> to
  each element, returning the resulting instances in the same order. An element that is
  not a payload object is taken to make it throw.
\<close>

fun loadAll :: "program \<Rightarrow> cname \<Rightarrow> jsval list \<Rightarrow> state \<Rightarrow> addr list res" where
  "loadAll P c [] s = (Inr [], s)"
| "loadAll P c (JObj kvs # os) s =
     (case load P c kvs s of
        (Inl e, s1) \<Rightarrow> (Inl e, s1)
      | (Inr a, s1) \<Rightarrow>
          (case loadAll P c os s1 of
             (Inl e, s2) \<Rightarrow> (Inl e, s2)
           | (Inr as, s2) \<Rightarrow> (Inr (a # as), s2)))"
| "loadAll P c (v # os) s = (Inl JSTypeError, s)"

text \<open>
  \<^verbatim>\<open>
  constructor(modelClass) {
    super();
    this.__modelClass__ = modelClass;
    this.__isBusy__     = false;
    this.__promise__    = Promise.resolve();
  }
  \<close>
\<close>

definition new_QueryArray :: "mapper \<Rightarrow> state \<Rightarrow> world" where
  "new_QueryArray m s =
     \<lparr>models = s, mapper_of = m, busy = False, queued = None, error_of = None, elements = [],
      current = 0,
      promises = (\<lambda>p. \<lparr>settled = (if p = 0 then Some (Fulfilled JUndefined) else None), reactions = []\<rparr>),
      next_pid = 1, jobs = [], calls = [], requests = [], heard = []\<rparr>"

text \<open>
  \<^verbatim>\<open>
  query(opts = {}) {
    if (this.isBusy) {
      if (!this.__queued__) {
        this.__promise__ = this.__promise__.then(() => {
          this.query(this.__queued__);
          delete this.__queued__;
          return this.__promise__;
        });
      }
      this.__queued__ = opts;
    }
    else {
      this.__isBusy__ = true;
      this.__promise__ = this.modelClass._callMapper('query', [opts]).then(
        (objects) => {
          this.replace(this.modelClass.loadAll(objects));
          this.__isBusy__ = false;
          delete this.__error__;
        },
        (e) => {
          this.__isBusy__ = false;
          this.__error__ = e;
          throw e;
        }
      );
    }
    return this;
  }
  then(f1, f2) { return this.__promise__.then(f1, f2); }
  catch(f) { return this.__promise__.catch(f); }
  \<close>
  The default \<open>{}\<close> stands in for an argument that is \<open>undefined\<close>.
\<close>

definition queued_value :: "world \<Rightarrow> jsval" where
  "queued_value w = (case queued w of None \<Rightarrow> JUndefined | Some v \<Rightarrow> v)"

definition default_opts :: "jsval \<Rightarrow> jsval" where
  "default_opts arg = (if arg = JUndefined then JObj [] else arg)"

definition query :: "jsval \<Rightarrow> world \<Rightarrow> (error + unit) \<times> world" where
  "query arg w =
     (let opts = default_opts arg in
      if busy w then
        (let w1 = (if \<not> truthy (queued_value w)
                   then (case then_p (current w) Chain w of (d, w') \<Rightarrow> w'\<lparr>current := d\<rparr>)
                   else w)
         in (Inr (), w1\<lparr>queued := Some opts\<rparr>))
      else
        (case callMapper opts (w\<lparr>busy := True\<rparr>) of
           (Inl e, w1) \<Rightarrow> (Inl e, w1)
         | (Inr m, w1) \<Rightarrow>
             (case then_p m QueryDone w1 of (d, w2) \<Rightarrow> (Inr (), w2\<lparr>current := d\<rparr>))))"

definition then_q :: "nat \<Rightarrow> bool \<Rightarrow> bool \<Rightarrow> world \<Rightarrow> pid \<times> world" where
  "then_q i f1 f2 w = then_p (current w) (Consumer i f1 f2) w"

definition catch_q :: "nat \<Rightarrow> world \<Rightarrow> pid \<times> world" where
  "catch_q i w = then_p (current w) (Consumer i False True) w"

text \<open>
  One job. A callback that returns nothing fulfils the promise of its \<open>then\<close> with
  \<open>undefined\<close>; a callback that throws rejects it; where \<open>then\<close> was given no callback for
  the outcome, the outcome is passed on. A caller's callback is taken to record its
  argument and return nothing. \<open>this.replace(xs)\<close> makes \<open>xs\<close> the elements of the array;
  a value of the mapper that is not an array is taken to make \<open>loadAll\<close> throw.
\<close>

definition run_job :: "program \<Rightarrow> cname \<Rightarrow> job \<Rightarrow> world \<Rightarrow> world" where
  "run_job P c j w =
     (case j of
        Thenable d q \<Rightarrow>
          (case settled (promises w q) of
             None \<Rightarrow> add_reaction q (Adopt, d) w
           | Some oc \<Rightarrow> enqueue (React Adopt d oc) w)
      | React QueryDone d (Fulfilled objects) \<Rightarrow>
          (case objects of
             JArr os \<Rightarrow>
               (case loadAll P c os (models w) of
                  (Inr as, m1) \<Rightarrow>
                    settle d (Fulfilled JUndefined)
                      (w\<lparr>models := m1, elements := map JRef as, busy := False, error_of := None\<rparr>)
                | (Inl e, m1) \<Rightarrow> settle d (Rejected (JError e)) (w\<lparr>models := m1\<rparr>))
           | _ \<Rightarrow> settle d (Rejected (JError JSTypeError)) w)
      | React QueryDone d (Rejected e) \<Rightarrow>
          settle d (Rejected e) (w\<lparr>busy := False, error_of := Some e\<rparr>)
      | React Chain d (Fulfilled v) \<Rightarrow>
          (case query (queued_value w) w of
             (Inl e, w1) \<Rightarrow> settle d (Rejected (JError e)) w1
           | (Inr u, w1) \<Rightarrow> resolve_with d (current w1) (w1\<lparr>queued := None\<rparr>))
      | React Chain d (Rejected e) \<Rightarrow> settle d (Rejected e) w
      | React (Consumer i f1 f2) d (Fulfilled v) \<Rightarrow>
          (if f1 then settle d (Fulfilled JUndefined) (w\<lparr>heard := heard w @ [(i, Fulfilled v)]\<rparr>)
           else settle d (Fulfilled v) w)
      | React (Consumer i f1 f2) d (Rejected e) \<Rightarrow>
          (if f2 then settle d (Fulfilled JUndefined) (w\<lparr>heard := heard w @ [(i, Rejected e)]\<rparr>)
           else settle d (Rejected e) w)
      | React Adopt d oc \<Rightarrow> settle d oc w)"

text \<open>
  The mapper settles the promise it returned from its call number \<open>k\<close> (counted from 0),
  with a value that is not itself a promise.
\<close>

definition respond :: "nat \<Rightarrow> outcome \<Rightarrow> world \<Rightarrow> world" where
  "respond k oc w = (if k < length (requests w) then settle (requests w ! k) oc w else w)"

text \<open>Running the queued jobs, at most \<open>n\<close> of them.\<close>

fun drain :: "program \<Rightarrow> cname \<Rightarrow> nat \<Rightarrow> world \<Rightarrow> world" where
  "drain P c 0 w = w"
| "drain P c (Suc n) w =
     (case jobs w of [] \<Rightarrow> w | j # js \<Rightarrow> drain P c n (run_job P c j (w\<lparr>jobs := js\<rparr>)))"

text \<open>
  The test suite's scenario of queued requests, with the first request rejected:
  \<open>a = BasicModel.buildQuery(); a.query({foo: 1}); a.query({foo: 2}); a.query({foo: 3})\<close>,
  the mapper rejects its promise with \<open>'foo'\<close>, and the jobs run. Then
  \<open>a.query({foo: 4}); a.query({foo: 5})\<close>, the mapper fulfils the promise of the second
  request with \<open>[]\<close>, and the jobs run.
\<close>

definition foo :: "int \<Rightarrow> jsval" where
  "foo n = JObj [(''foo'', JNum n)]"

definition c6_w3 :: world where
  "c6_w3 = snd (query (foo 3) (snd (query (foo 2) (snd (query (foo 1)
             (new_QueryArray ReturnsPromise no_instances))))))"

definition c6_rejected :: world where
  "c6_rejected = drain basic ''BasicModel'' 5 (respond 0 (Rejected (JStr ''foo'')) c6_w3)"

definition c6_later :: world where
  "c6_later = drain basic ''BasicModel'' 5 (respond 1 (Fulfilled (JArr []))
                (snd (query (foo 5) (snd (query (foo 4) c6_rejected)))))"

section \<open>Basic facts about slots\<close>

lemma getSlot_setSlot:
  "getSlot (setSlot a k v s) b j = (if b = a \<and> j = k then v else getSlot s b j)"
  by (simp add: getSlot_def setSlot_def)

lemma cls_setSlot: "cls (heap (setSlot a k v s) b) = cls (heap s b)"
  by (simp add: setSlot_def)

lemma ids_setSlot: "ids (setSlot a k v s) = ids s"
  by (simp add: setSlot_def)

lemma getSlot_IdMap_insert: "getSlot (IdMap_insert a s) b j = getSlot s b j"
  by (simp add: getSlot_def IdMap_insert_def)

section \<open>The boolean converter\<close>

text \<open>
  Claim C9, at the later revision of the converter, the one with the integer type and
  the pass-through of \<open>undefined\<close>: coercing \<open>undefined\<close> returns \<open>undefined\<close> unchanged,
  and coercing any other value returns its truthiness, the boolean \<open>!!v\<close>.
\<close>

theorem BooleanAttr_coerce_rev2_truthiness:
  "BooleanAttr_coerce_rev2 v = Inr (if v = JUndefined then JUndefined else JBool (truthy v))"
  by (simp add: BooleanAttr_coerce_rev2_def)

text \<open>
  The older revision in \<open>src/attrs.js\<close> has no pass-through: it returns the truthiness of
  every value, \<open>false\<close> for \<open>undefined\<close>.
\<close>

lemma BooleanAttr_coerce_older:
  "BooleanAttr_coerce v = Inr (JBool (truthy v))" "BooleanAttr_coerce JUndefined = Inr (JBool False)"
  by (simp_all add: BooleanAttr_coerce_def)

section \<open>The id accessor\<close>

text \<open>
  Claim C10: assigning \<open>id\<close> raises the overwrite error exactly when the current
  \<open>__id__\<close> is truthy; every assignment that does not raise stores the new id and leaves
  the instance registered in the identity map under its class and the new id.
\<close>

theorem set_id_guard:
  "(fst (set_id i a s) = Inl IdentityImmutable) = truthy (getSlot s a ''__id__'') \<and>
   (if truthy (getSlot s a ''__id__'')
    then set_id i a s = (Inl IdentityImmutable, s)
    else fst (set_id i a s) = Inr () \<and>
         get_id (snd (set_id i a s)) a = i \<and>
         IdMap_get (snd (set_id i a s)) (cls (heap s a)) i = Some a)"
  by (simp add: set_id_def get_id_def IdMap_get_def IdMap_insert_def getSlot_def setSlot_def)

section \<open>Facts about the association operations\<close>


lemma skip_apply: "skip m s = (Inr (), s)" by (simp add: skip_def ok_def)

lemmas monad_defs = andThen_def ok_def throw_def modify_def skip_apply

lemma nxt_setSlot: "nxt (setSlot a k v s) = nxt s" by (simp add: setSlot_def)

lemma setSlot_setSlot: "setSlot a k v (setSlot a k w s) = setSlot a k v s"
  by (simp add: setSlot_def)

lemma touch_refl: "touch a k s s" by (simp add: touch_def)

lemma touch_setSlot: "touch a k s (setSlot a k v s)" by (auto simp: touch_def)

lemma touch_trans: "touch a k s s1 \<Longrightarrow> touch a k s1 s2 \<Longrightarrow> touch a k s s2"
  by (auto simp: touch_def setSlot_setSlot)

lemma touch_cls: "touch a k s s' \<Longrightarrow> cls (heap s' b) = cls (heap s b)"
  by (auto simp: touch_def cls_setSlot)

lemma touch_ids: "touch a k s s' \<Longrightarrow> ids s' = ids s"
  by (auto simp: touch_def ids_setSlot)

lemma touch_nxt: "touch a k s s' \<Longrightarrow> nxt s' = nxt s"
  by (auto simp: touch_def nxt_setSlot)

lemma touch_getSlot: "touch a k s s' \<Longrightarrow> (b, j) \<noteq> (a, k) \<Longrightarrow> getSlot s' b j = getSlot s b j"
  by (auto simp: touch_def getSlot_setSlot)

lemma touch_slots: "touch a k s s' \<Longrightarrow> (b, j) \<noteq> (a, k) \<Longrightarrow> slots (heap s' b) j = slots (heap s b) j"
  by (auto simp: touch_def setSlot_def)

lemma associations_aname: "associations P c n = Some d \<Longrightarrow> aname d = n"
proof -
  assume a: "associations P c n = Some d"
  let ?f = "filter (\<lambda>(k, m). k = n \<and> mk_desc k m \<noteq> None) (all_members P c)"
  from a obtain k m xs where f: "?f = (k, m) # xs" and d: "mk_desc k m = Some d"
    by (auto simp: associations_def split: list.splits)
  have "(k, m) \<in> set ?f" using f by simp
  then have "k = n" by auto
  with d show ?thesis by (cases m) auto
qed

lemma instanceof_cls: "(\<And>b. cls (heap s' b) = cls (heap s b)) \<Longrightarrow> instanceof P s' v k = instanceof P s v k"
  by (simp add: instanceof_def split: jsval.splits)

lemma hasManyGet_eq:
  "hasManyGet n a s = (hasManyRead n a s, setSlot a (key_of n) (hasManyRead n a s) s)"
  by (simp add: hasManyRead_def hasManyGet_def Let_def)

lemma hasManyRead_setSlot:
  "hasManyRead n a (setSlot b k v s) =
     (if b = a \<and> k = key_of n then (if truthy v then v else JArr []) else hasManyRead n a s)"
  by (auto simp: hasManyRead_def hasManyGet_def Let_def getSlot_setSlot)

lemma checkAssociatedType_state: "checkAssociatedType P d v s = (r, s') \<Longrightarrow> s' = s"
  by (auto simp: checkAssociatedType_def monad_defs split: option.splits if_splits)

lemma push_touch: "push n m a s = (r, s') \<Longrightarrow> touch a (key_of n) s s'"
  by (auto simp: push_def hasManyGet_eq monad_defs touch_def setSlot_setSlot split: jsval.splits)

lemma push_ok: "push n m a s = (Inr (), s') \<Longrightarrow>
   \<exists>xs. hasManyRead n a s = JArr xs \<and> s' = setSlot a (key_of n) (JArr (xs @ [m])) s"
  by (auto simp: push_def hasManyGet_eq monad_defs setSlot_setSlot split: jsval.splits)

lemma slice_touch: "slice n a s = (r, s') \<Longrightarrow> touch a (key_of n) s s'"
  by (auto simp: slice_def hasManyGet_eq monad_defs touch_def split: jsval.splits)

lemma slice_ok: "slice n a s = (Inr (), s') \<Longrightarrow>
   \<exists>xs. hasManyRead n a s = JArr xs \<and> s' = setSlot a (key_of n) (JArr xs) s"
  by (auto simp: slice_def hasManyGet_eq monad_defs split: jsval.splits)

lemma spliceAt_touch: "spliceAt n i a s = (r, s') \<Longrightarrow> touch a (key_of n) s s'"
  by (auto simp: spliceAt_def hasManyGet_eq monad_defs touch_def setSlot_setSlot split: jsval.splits)

lemma hasOneSet0_touch: "hasOneSet0 P d v a s = (r, s') \<Longrightarrow> touch a (key_of (aname d)) s s'"
  by (auto simp: hasOneSet0_def hasOneSet_body_def Let_def monad_defs touch_def
      dest: checkAssociatedType_state split: if_splits prod.splits sum.splits)

lemma hasOneSet0_ok: "hasOneSet0 P d v a s = (Inr (), s') \<Longrightarrow> s' = setSlot a (key_of (aname d)) v s"
  by (auto simp: hasOneSet0_def hasOneSet_body_def Let_def monad_defs
      dest: checkAssociatedType_state split: if_splits prod.splits sum.splits)

lemma hasManyAdd0_single_ok:
  "hasManyAdd0 P d [m] a s = (Inr (), s') \<Longrightarrow>
   \<exists>xs. hasManyRead (aname d) a s = JArr xs \<and> s' = setSlot a (key_of (aname d)) (JArr (xs @ [m])) s"
  apply (auto simp: hasManyAdd0_def hasManyAdd_body_def monad_defs split: prod.splits sum.splits)
  apply (drule slice_ok)
  apply (drule checkAssociatedType_state)
  apply (auto dest!: push_ok simp: hasManyRead_setSlot setSlot_setSlot)
  done


lemma removeFirst_remove1: "m \<noteq> JNaN \<Longrightarrow> removeFirst xs m = remove1 m xs"
proof (induction xs)
  case Nil
  then show ?case by (simp add: removeFirst_def)
next
  case (Cons x xs)
  then show ?case
    by (auto simp: removeFirst_def splice1_def strictEq_def split: option.splits)
qed

lemma hasManyRemove0_single_ok:
  "hasManyRemove0 d [m] a s = (Inr (), s') \<Longrightarrow>
   \<exists>xs. hasManyRead (aname d) a s = JArr xs \<and>
        s' = setSlot a (key_of (aname d)) (JArr (removeFirst xs m)) s"
  apply (auto simp: hasManyRemove0_def hasManyRemove_body_def monad_defs split: prod.splits sum.splits)
  apply (drule slice_ok)
  apply (auto simp: hasManyGet_eq hasManyRead_setSlot spliceAt_def setSlot_setSlot monad_defs removeFirst_def
       split: option.splits jsval.splits)
  done

lemma presD: "pres R m \<Longrightarrow> m s = (r, s') \<Longrightarrow> R s s'"
  by (simp add: pres_def)

lemma pres_ok: "preorder R \<Longrightarrow> pres R (ok x)"
  by (simp add: pres_def preorder_def ok_def)

lemma pres_throw: "preorder R \<Longrightarrow> pres R (throw e)"
  by (simp add: pres_def preorder_def throw_def)

lemma pres_skip: "preorder R \<Longrightarrow> pres R (skip m)"
  by (simp add: skip_def pres_ok)

lemma pres_modify: "writes R a k \<Longrightarrow> pres R (modify (setSlot a k v))"
  by (simp add: pres_def writes_def modify_def)

lemma pres_andThen:
  assumes "preorder R" "pres R m" "\<And>x. pres R (f x)"
  shows "pres R (andThen m f)"
  unfolding pres_def andThen_def
proof (intro allI impI)
  fix s r s'
  assume a: "(case m s of (Inl e, s') \<Rightarrow> (Inl e, s') | (Inr x, s') \<Rightarrow> f x s') = (r, s')"
  obtain r1 s1 where m: "m s = (r1, s1)" by (cases "m s")
  have R1: "R s s1" using presD[OF assms(2) m] .
  show "R s s'"
  proof (cases r1)
    case (Inl e)
    with a m have "s' = s1" by simp
    with R1 show ?thesis by simp
  next
    case (Inr x)
    with a m have "f x s1 = (r, s')" by simp
    from presD[OF assms(3) this] R1 assms(1) show ?thesis unfolding preorder_def by blast
  qed
qed

lemma pres_if: "pres R m \<Longrightarrow> pres R n \<Longrightarrow> pres R (if b then m else n)"
  by simp

lemma pres_checkAssociatedType: "preorder R \<Longrightarrow> pres R (checkAssociatedType P d v)"
  by (auto simp: pres_def preorder_def dest: checkAssociatedType_state)

lemma pres_hasManyGet:
  "preorder R \<Longrightarrow> writes R a (key_of n) \<Longrightarrow> hasManyGet n a s = (v, s') \<Longrightarrow> R s s'"
  by (auto simp: hasManyGet_eq writes_def)

lemma pres_push: "preorder R \<Longrightarrow> writes R a (key_of n) \<Longrightarrow> pres R (push n m a)"
  by (auto simp: pres_def push_def hasManyGet_eq setSlot_setSlot monad_defs writes_def split: jsval.splits)

lemma pres_slice: "preorder R \<Longrightarrow> writes R a (key_of n) \<Longrightarrow> pres R (slice n a)"
  by (auto simp: pres_def slice_def hasManyGet_eq monad_defs writes_def split: jsval.splits)

lemma pres_spliceAt: "preorder R \<Longrightarrow> writes R a (key_of n) \<Longrightarrow> pres R (spliceAt n i a)"
  by (auto simp: pres_def spliceAt_def hasManyGet_eq setSlot_setSlot monad_defs writes_def split: jsval.splits)

lemma pres_hasOneSet_body:
  assumes "preorder R" "writes R a (key_of (aname d))" "\<And>x. pres R (removed x)" "\<And>x. pres R (added x)"
  shows "pres R (hasOneSet_body removed added P d v a)"
proof -
  have "pres R (\<lambda>s. hasOneSet_body removed added P d v a s)"
    unfolding hasOneSet_body_def Let_def pres_def
  proof (intro allI impI)
    fix s r s'
    let ?m = "andThen (if truthy v then checkAssociatedType P d v else ok ()) (\<lambda>_.
      andThen (modify (setSlot a (key_of (aname d)) v)) (\<lambda>_.
      andThen (if truthy (getSlot s a (key_of (aname d))) then removed (getSlot s a (key_of (aname d))) else ok ()) (\<lambda>_.
      if truthy v then added v else ok ())))"
    assume "?m s = (r, s')"
    moreover have "pres R ?m"
      by (intro pres_andThen pres_if pres_checkAssociatedType pres_ok pres_modify assms)
    ultimately show "R s s'" by (rule presD[rotated])
  qed
  then show ?thesis by simp
qed

lemma pres_hasManyAdd_loop:
  assumes "preorder R" "writes R a (key_of (aname d))" "\<And>x. pres R (added x)"
  shows "pres R (hasManyAdd_loop added P d a ms)"
proof (induction ms)
  case Nil
  have "hasManyAdd_loop added P d a [] = ok ()" by (rule ext) simp
  then show ?case by (simp add: pres_ok assms)
next
  case (Cons m ms)
  have "hasManyAdd_loop added P d a (m # ms) =
     andThen (checkAssociatedType P d m) (\<lambda>_.
     andThen (added m) (\<lambda>_.
     andThen (push (aname d) m a) (\<lambda>_.
     hasManyAdd_loop added P d a ms)))" by (rule ext) simp
  then show ?case
    by (simp only:) (intro pres_andThen pres_checkAssociatedType pres_push assms Cons.IH)
qed

lemma pres_hasManyAdd_body:
  assumes "preorder R" "writes R a (key_of (aname d))" "\<And>x. pres R (added x)"
  shows "pres R (hasManyAdd_body added P d ms a)"
  unfolding hasManyAdd_body_def
  by (intro pres_andThen pres_slice pres_hasManyAdd_loop assms)

lemma pres_hasManyRemove_loop:
  assumes "preorder R" "writes R a (key_of (aname d))" "\<And>x. pres R (removed x)"
  shows "pres R (hasManyRemove_loop removed d a ms)"
proof (induction ms)
  case Nil
  have "hasManyRemove_loop removed d a [] = ok ()" by (rule ext) simp
  then show ?case by (simp add: pres_ok assms)
next
  case (Cons m ms)
  show ?case unfolding pres_def
  proof (intro allI impI)
    fix s r s'
    assume a: "hasManyRemove_loop removed d a (m # ms) s = (r, s')"
    let ?s1 = "setSlot a (key_of (aname d)) (hasManyRead (aname d) a s) s"
    have R1: "R s ?s1" using assms(2) by (simp add: writes_def)
    have tr: "\<And>t u. R s t \<Longrightarrow> R t u \<Longrightarrow> R s u" using assms(1) unfolding preorder_def by blast
    show "R s s'"
    proof (cases "hasManyRead (aname d) a s")
      case (JArr xs)
      show ?thesis
      proof (cases "indexOf xs m")
        case None
        with JArr a have "hasManyRemove_loop removed d a ms ?s1 = (r, s')"
          by (simp add: hasManyGet_eq)
        from tr[OF R1 presD[OF Cons.IH this]] show ?thesis .
      next
        case (Some i)
        let ?rest = "andThen (removed m) (\<lambda>_. andThen (spliceAt (aname d) i a)
               (\<lambda>_. hasManyRemove_loop removed d a ms))"
        from JArr Some a have "?rest ?s1 = (r, s')" by (simp add: hasManyGet_eq)
        moreover have "pres R ?rest"
          by (intro pres_andThen pres_spliceAt assms Cons.IH)
        ultimately have "R ?s1 s'" by (rule presD[rotated])
        from tr[OF R1 this] show ?thesis .
      qed
    qed (use a R1 in \<open>auto simp: hasManyGet_eq throw_def\<close>)
  qed
qed

lemma pres_hasManyRemove_body:
  assumes "preorder R" "writes R a (key_of (aname d))" "\<And>x. pres R (removed x)"
  shows "pres R (hasManyRemove_body removed d ms a)"
  unfolding hasManyRemove_body_def
  by (intro pres_andThen pres_slice pres_hasManyRemove_loop assms)

lemma pres_inverseRemoved:
  assumes "preorder R" "\<And>b. recv = JRef b \<Longrightarrow> declared_assoc P n \<Longrightarrow> writes R b (key_of n)"
  shows "pres R (inverseRemoved P recv n model)"
  unfolding pres_def
proof (intro allI impI)
  fix s r s'
  assume a: "inverseRemoved P recv n model s = (r, s')"
  have rf: "R s s" using assms(1) by (simp add: preorder_def)
  show "R s s'"
  proof (cases recv)
    case (JRef b)
    show ?thesis
    proof (cases "associations P (cls (heap s b)) n")
      case None
      with a JRef rf show ?thesis by (simp add: inverseRemoved_def throw_def)
    next
      case (Some d)
      have "declared_assoc P n" using Some unfolding declared_assoc_def by blast
      from assms(2)[OF JRef this] have w: "writes R b (key_of (aname d))"
        using associations_aname[OF Some] by simp
      have "pres R (hasOneSet0 P d JUndefined b)" unfolding hasOneSet0_def
        by (intro pres_hasOneSet_body pres_skip assms(1) w)
      moreover have "pres R (hasManyRemove0 d [JRef model] b)" unfolding hasManyRemove0_def
        by (intro pres_hasManyRemove_body pres_skip assms(1) w)
      ultimately show ?thesis using a JRef Some
        by (auto simp: inverseRemoved_def dest: presD split: assoc_type.splits)
    qed
  qed (use a rf in \<open>auto simp: inverseRemoved_def throw_def\<close>)
qed

lemma pres_inverseAdded:
  assumes "preorder R" "\<And>b. recv = JRef b \<Longrightarrow> declared_assoc P n \<Longrightarrow> writes R b (key_of n)"
  shows "pres R (inverseAdded P recv n model)"
  unfolding pres_def
proof (intro allI impI)
  fix s r s'
  assume a: "inverseAdded P recv n model s = (r, s')"
  have rf: "R s s" using assms(1) by (simp add: preorder_def)
  show "R s s'"
  proof (cases recv)
    case (JRef b)
    show ?thesis
    proof (cases "associations P (cls (heap s b)) n")
      case None
      with a JRef rf show ?thesis by (simp add: inverseAdded_def throw_def)
    next
      case (Some d)
      have "declared_assoc P n" using Some unfolding declared_assoc_def by blast
      from assms(2)[OF JRef this] have w: "writes R b (key_of (aname d))"
        using associations_aname[OF Some] by simp
      have "pres R (hasOneSet0 P d (JRef model) b)" unfolding hasOneSet0_def
        by (intro pres_hasOneSet_body pres_skip assms(1) w)
      moreover have "pres R (hasManyAdd0 P d [JRef model] b)" unfolding hasManyAdd0_def
        by (intro pres_hasManyAdd_body pres_skip assms(1) w)
      ultimately show ?thesis using a JRef Some
        by (auto simp: inverseAdded_def dest: presD split: assoc_type.splits)
    qed
  qed (use a rf in \<open>auto simp: inverseAdded_def throw_def\<close>)
qed

lemma preorder_touch: "preorder (touch a k)"
  unfolding preorder_def using touch_refl touch_trans by blast

lemma writes_touch: "writes (touch a k) a k"
  by (simp add: writes_def touch_setSlot)

lemma inverseAdded_touch:
  "inverseAdded P (JRef b) iv a s = (r, s') \<Longrightarrow> touch b (key_of iv) s s'"
  by (rule presD[OF pres_inverseAdded[OF preorder_touch]]) (auto simp: writes_touch)

lemma inverseRemoved_touch:
  "inverseRemoved P (JRef b) iv a s = (r, s') \<Longrightarrow> touch b (key_of iv) s s'"
  by (rule presD[OF pres_inverseRemoved[OF preorder_touch]]) (auto simp: writes_touch)

lemma inverseRemoved_nonref:
  "\<forall>b. recv \<noteq> JRef b \<Longrightarrow> inverseRemoved P recv iv a s = (Inl JSTypeError, s)"
  by (cases recv) (auto simp: inverseRemoved_def monad_defs)

lemma inverseAdded_ok:
  assumes "associations P (cls (heap s b)) iv = Some d"
    and "inverseAdded P (JRef b) iv a s = (Inr (), s')"
  shows "(atype d = HasOne \<longrightarrow> s' = setSlot b (key_of iv) (JRef a) s) \<and>
         (atype d = HasMany \<longrightarrow>
            (\<exists>xs. hasManyRead iv b s = JArr xs \<and> s' = setSlot b (key_of iv) (JArr (xs @ [JRef a])) s))"
  using assms associations_aname[OF assms(1)]
  by (auto simp: inverseAdded_def dest: hasOneSet0_ok hasManyAdd0_single_ok split: assoc_type.splits)

lemma inverseRemoved_ok:
  assumes "associations P (cls (heap s b)) iv = Some d"
    and "inverseRemoved P (JRef b) iv a s = (Inr (), s')"
  shows "(atype d = HasOne \<longrightarrow> s' = setSlot b (key_of iv) JUndefined s) \<and>
         (atype d = HasMany \<longrightarrow>
            (\<exists>xs. hasManyRead iv b s = JArr xs \<and> s' = setSlot b (key_of iv) (JArr (remove1 (JRef a) xs)) s))"
  using assms associations_aname[OF assms(1)]
  by (auto simp: inverseRemoved_def removeFirst_remove1 dest: hasOneSet0_ok hasManyRemove0_single_ok split: assoc_type.splits)

lemma hasOneSet_steps:
  assumes "inv_of desc = Some iv"
    and "hasOneSet P desc v True a s = (Inr (), s')"
  shows "\<exists>sr. (if truthy (getSlot s a (key_of (aname desc)))
               then inverseRemoved P (getSlot s a (key_of (aname desc))) iv a
                      (setSlot a (key_of (aname desc)) v s) = (Inr (), sr)
               else sr = setSlot a (key_of (aname desc)) v s) \<and>
              (if truthy v then inverseAdded P v iv a sr = (Inr (), s') \<and> (\<exists>b. v = JRef b) else s' = sr)"
  using assms
  by (auto simp: hasOneSet_def hasOneSet_body_def notifyRemoved_def notifyAdded_def Let_def monad_defs
        checkAssociatedType_def instanceof_def
      split: if_splits prod.splits sum.splits option.splits jsval.splits)




lemma hasOne_after_set:
  assumes iv: "inv_of desc = Some iv"
    and d: "associations P (cls (heap s b)) iv = Some d"
    and st: "hasOneSet P desc (JRef b) True a s = (Inr (), s1)"
  shows "(atype d = HasOne \<longrightarrow> getSlot s1 b (key_of iv) = JRef a) \<and>
         (atype d = HasMany \<longrightarrow> (\<exists>xs. hasManyRead iv b s1 = JArr xs \<and> JRef a \<in> set xs))"
proof -
  let ?k = "key_of (aname desc)"
  from hasOneSet_steps[OF iv st] obtain sr where
    rem: "if truthy (getSlot s a ?k) then inverseRemoved P (getSlot s a ?k) iv a (setSlot a ?k (JRef b) s) = (Inr (), sr)
          else sr = setSlot a ?k (JRef b) s"
    and add: "inverseAdded P (JRef b) iv a sr = (Inr (), s1)" by auto
  have c: "cls (heap sr b) = cls (heap s b)"
  proof (cases "truthy (getSlot s a ?k)")
    case True
    with rem have r: "inverseRemoved P (getSlot s a ?k) iv a (setSlot a ?k (JRef b) s) = (Inr (), sr)" by simp
    show ?thesis
    proof (cases "\<exists>p. getSlot s a ?k = JRef p")
      case True
      then obtain p where p: "getSlot s a ?k = JRef p" by blast
      from inverseRemoved_touch[OF r[unfolded p]] show ?thesis by (simp add: touch_cls cls_setSlot)
    next
      case False
      with inverseRemoved_nonref[of "getSlot s a ?k" P iv a] r show ?thesis by simp
    qed
  next
    case False
    with rem show ?thesis by (simp add: cls_setSlot)
  qed
  have d': "associations P (cls (heap sr b)) iv = Some d" using d c by simp
  show ?thesis
  proof (cases "atype d")
    case HasOne
    with inverseAdded_ok[OF d' add] show ?thesis by (simp add: getSlot_setSlot)
  next
    case HasMany
    with inverseAdded_ok[OF d' add] obtain xs where "s1 = setSlot b (key_of iv) (JArr (xs @ [JRef a])) sr"
      by auto
    with HasMany show ?thesis by (simp add: hasManyRead_setSlot)
  qed
qed

lemma key_of_inj: "(key_of n = key_of m) = (n = m)"
  by (simp add: key_of_def)

lemma hasManyRead_alt:
  "hasManyRead n a s = (if truthy (getSlot s a (key_of n)) then getSlot s a (key_of n) else JArr [])"
  by (simp add: hasManyRead_def hasManyGet_def Let_def)

lemma touch_hasManyRead:
  "touch a k s s' \<Longrightarrow> (b, key_of n) \<noteq> (a, k) \<Longrightarrow> hasManyRead n b s' = hasManyRead n b s"
  by (simp add: hasManyRead_alt touch_getSlot)

lemma hasOneSet_set_result:
  assumes iv: "inv_of desc = Some iv"
    and d: "associations P (cls (heap s b)) iv = Some d"
    and st: "hasOneSet P desc (JRef b) True a s = (Inr (), s1)"
    and pre: "getSlot s a (key_of (aname desc)) \<noteq> JRef a"
  shows "getSlot s1 a (key_of (aname desc)) = JRef b \<and>
         (\<forall>x. cls (heap s1 x) = cls (heap s x)) \<and>
         (atype d = HasMany \<longrightarrow> (a, aname desc) \<noteq> (b, iv) \<and>
            (\<exists>ys. hasManyRead iv b s = JArr ys \<and>
                  hasManyRead iv b s1 =
                    JArr ((if getSlot s a (key_of (aname desc)) = JRef b then remove1 (JRef a) ys else ys)
                           @ [JRef a])))"
proof -
  let ?k = "key_of (aname desc)"
  let ?ki = "key_of iv"
  let ?prev = "getSlot s a ?k"
  let ?sw = "setSlot a ?k (JRef b) s"
  from hasOneSet_steps[OF iv st] obtain sr where
    rem: "if truthy ?prev then inverseRemoved P ?prev iv a ?sw = (Inr (), sr) else sr = ?sw"
    and add: "inverseAdded P (JRef b) iv a sr = (Inr (), s1)" by auto
  \<comment> \<open>the removal step touches only the inverse slot of the previous partner\<close>
  have tr: "sr = ?sw \<or> (\<exists>p. ?prev = JRef p \<and> p \<noteq> a \<and> touch p ?ki ?sw sr)"
  proof (cases "truthy ?prev")
    case True
    with rem have r: "inverseRemoved P ?prev iv a ?sw = (Inr (), sr)" by simp
    show ?thesis
    proof (cases "\<exists>p. ?prev = JRef p")
      case True
      then obtain p where p: "?prev = JRef p" by blast
      with pre have "p \<noteq> a" by auto
      with inverseRemoved_touch[OF r[unfolded p]] p show ?thesis by blast
    next
      case False
      with inverseRemoved_nonref[of ?prev P iv a ?sw] r show ?thesis by simp
    qed
  next
    case False
    with rem show ?thesis by simp
  qed
  have c: "\<And>x. cls (heap sr x) = cls (heap s x)"
    using tr by (auto simp: touch_cls cls_setSlot)
  have ga: "getSlot sr a ?k = JRef b"
    using tr by (auto simp: touch_getSlot getSlot_setSlot)
  have d': "associations P (cls (heap sr b)) iv = Some d" using d c by simp
  have c1: "\<And>x. cls (heap s1 x) = cls (heap s x)"
    using inverseAdded_touch[OF add] c by (simp add: touch_cls)
  show ?thesis
  proof (cases "atype d")
    case HasOne
    with inverseAdded_ok[OF d' add] have "s1 = setSlot b ?ki (JRef a) sr" by simp
    with ga HasOne c1 show ?thesis by (auto simp: getSlot_setSlot)
  next
    case HasMany
    with inverseAdded_ok[OF d' add] obtain xs where
      xs: "hasManyRead iv b sr = JArr xs" and s1: "s1 = setSlot b ?ki (JArr (xs @ [JRef a])) sr"
      by auto
    have ne: "(a, aname desc) \<noteq> (b, iv)"
    proof
      assume "(a, aname desc) = (b, iv)"
      with xs ga show False by (simp add: hasManyRead_alt)
    qed
    then have ne': "(b, ?ki) \<noteq> (a, ?k)" by (auto simp: key_of_inj)
    have rw: "hasManyRead iv b ?sw = hasManyRead iv b s"
      using ne' by (auto simp: hasManyRead_setSlot)
    have "\<exists>ys. hasManyRead iv b s = JArr ys \<and>
            xs = (if ?prev = JRef b then remove1 (JRef a) ys else ys)"
    proof (cases "?prev = JRef b")
      case True
      then have "truthy ?prev" by simp
      with rem True have r: "inverseRemoved P (JRef b) iv a ?sw = (Inr (), sr)" by simp
      have dw: "associations P (cls (heap ?sw b)) iv = Some d" using d by (simp add: cls_setSlot)
      from inverseRemoved_ok[OF dw r] HasMany obtain ys where
        "hasManyRead iv b ?sw = JArr ys" "sr = setSlot b ?ki (JArr (remove1 (JRef a) ys)) ?sw" by auto
      with xs rw True show ?thesis by (simp add: hasManyRead_setSlot)
    next
      case False
      have "hasManyRead iv b sr = hasManyRead iv b ?sw"
        using tr False by (auto simp: touch_hasManyRead)
      with xs rw False show ?thesis by simp
    qed
    with s1 ga ne ne' c1 HasMany show ?thesis
      by (auto simp: getSlot_setSlot hasManyRead_setSlot)
  qed
qed

lemma hasOneSet_clear_result:
  assumes iv: "inv_of desc = Some iv"
    and d: "associations P (cls (heap s b)) iv = Some d"
    and cur: "getSlot s a (key_of (aname desc)) = JRef b"
    and cl: "hasOneSet P desc v True a s = (Inr (), s2)" and v: "\<not> truthy v"
  shows "(atype d = HasOne \<longrightarrow> getSlot s2 b (key_of iv) = JUndefined) \<and>
         (atype d = HasMany \<longrightarrow> (a, aname desc) \<noteq> (b, iv) \<longrightarrow>
            (\<exists>xs. hasManyRead iv b s = JArr xs \<and> hasManyRead iv b s2 = JArr (remove1 (JRef a) xs)))"
proof -
  let ?k = "key_of (aname desc)"
  let ?ki = "key_of iv"
  let ?sw = "setSlot a ?k v s"
  from hasOneSet_steps[OF iv cl] cur v have r: "inverseRemoved P (JRef b) iv a ?sw = (Inr (), s2)"
    by auto
  have dw: "associations P (cls (heap ?sw b)) iv = Some d" using d by (simp add: cls_setSlot)
  show ?thesis
  proof (cases "atype d")
    case HasOne
    with inverseRemoved_ok[OF dw r] show ?thesis by (simp add: getSlot_setSlot)
  next
    case HasMany
    with inverseRemoved_ok[OF dw r] obtain ys where
      ys: "hasManyRead iv b ?sw = JArr ys" "s2 = setSlot b ?ki (JArr (remove1 (JRef a) ys)) ?sw" by auto
    then show ?thesis using HasMany
      by (auto simp: hasManyRead_setSlot key_of_inj split: if_splits)
  qed
qed












section \<open>Inverse symmetry (claims C3 and C4)\<close>

lemma two_fresh_obs:
  "cls (heap two_fresh a) = (if a = 0 then ''Foo'' else ''Bar'')" "getSlot two_fresh a k = JUndefined"
  by (simp_all add: two_fresh_def getSlot_def)

lemma one_many_obs:
  "associations one_many ''Foo'' ''bar'' = Some Foo_bar"
  "associations one_many ''Bar'' ''foos'' = Some Bar_foos"
  "chain one_many ''Foo'' = [''Foo'']" "chain one_many ''Bar'' = [''Bar'']"
  by (simp_all add: associations_def all_members_def chain_def one_many_def Foo_bar_def Bar_foos_def)

lemma many_many_obs:
  "associations many_many ''Foo'' ''bars'' = Some Foo_bars"
  "associations many_many ''Bar'' ''foos'' = Some Bar_foos2"
  "chain many_many ''Foo'' = [''Foo'']" "chain many_many ''Bar'' = [''Bar'']"
  by (simp_all add: associations_def all_members_def chain_def many_many_def Foo_bars_def Bar_foos2_def)

lemma desc_fields:
  "atype Foo_bar = HasOne" "aname Foo_bar = ''bar''" "klass Foo_bar = ByClass ''Bar''" "inverse_name Foo_bar = Some ''foos''"
  "atype Bar_foos = HasMany" "aname Bar_foos = ''foos''" "klass Bar_foos = ByClass ''Foo''" "inverse_name Bar_foos = Some ''bar''"
  "atype Foo_bars = HasMany" "aname Foo_bars = ''bars''" "klass Foo_bars = ByClass ''Bar''" "inverse_name Foo_bars = Some ''foos''"
  "atype Bar_foos2 = HasMany" "aname Bar_foos2 = ''foos''" "klass Bar_foos2 = ByClass ''Foo''" "inverse_name Bar_foos2 = Some ''bars''"
  by (simp_all add: Foo_bar_def Bar_foos_def Foo_bars_def Bar_foos2_def)

lemmas exec_defs = hasOneSet_def hasOneSet_body_def hasManyAdd_def hasManyAdd_body_def hasManyRemove_def
  hasManyRemove_body_def notifyAdded_def notifyRemoved_def inverseAdded_def inverseRemoved_def hasOneSet0_def
  hasManyAdd0_def hasManyRemove0_def slice_def push_def spliceAt_def hasManyGet_def hasManyRead_def
  checkAssociatedType_def resolveClass_def instanceof_def inv_of_def andThen_def ok_def throw_def modify_def
  skip_def Let_def splice1_def strictEq_def key_of_def getSlot_setSlot cls_setSlot setSlot_setSlot

lemmas demo_obs = two_fresh_obs one_many_obs many_many_obs desc_fields

lemma c3_w1_run: "hasOneSet one_many Foo_bar (JRef 1) True 0 two_fresh = (Inr (), c3_w1)"
  by (simp add: c3_w1_def exec_defs demo_obs)

lemma c3_w1_obs:
  "cls (heap c3_w1 a) = cls (heap two_fresh a)"
  "getSlot c3_w1 a k =
     (if a = 0 \<and> k = ''__bar__'' then JRef 1
      else if a = Suc 0 \<and> k = ''__foos__'' then JArr [JRef 0] else JUndefined)"
  by (auto simp: c3_w1_def exec_defs demo_obs )

lemma c3_w2_run: "hasOneSet one_many Foo_bar JUndefined True 0 c3_w1 = (Inr (), c3_w2)"
  by (simp add: c3_w2_def exec_defs demo_obs c3_w1_obs)

lemma c3_w2_obs:
  "cls (heap c3_w2 a) = cls (heap two_fresh a)"
  "getSlot c3_w2 a k =
     (if a = 0 \<and> k = ''__bar__'' then JUndefined
      else if a = Suc 0 \<and> k = ''__foos__'' then JArr [] else JUndefined)"
  by (auto simp: c3_w2_def exec_defs demo_obs c3_w1_obs)

lemma c3_x1_run: "hasManyAdd one_many Bar_foos [JRef 0, JRef 0] True 1 two_fresh = (Inr (), c3_x1)"
  by (simp add: c3_x1_def exec_defs demo_obs)

lemma c3_x1_obs:
  "cls (heap c3_x1 a) = cls (heap two_fresh a)"
  "getSlot c3_x1 a k =
     (if a = 0 \<and> k = ''__bar__'' then JRef 1
      else if a = Suc 0 \<and> k = ''__foos__'' then JArr [JRef 0, JRef 0] else JUndefined)"
  by (auto simp: c3_x1_def exec_defs demo_obs )

lemma c3_x2_run: "hasOneSet one_many Foo_bar (JRef 1) True 0 c3_x1 = (Inr (), c3_x2)"
  by (simp add: c3_x2_def exec_defs demo_obs c3_x1_obs)

lemma c3_x2_obs:
  "cls (heap c3_x2 a) = cls (heap two_fresh a)"
  "getSlot c3_x2 a k =
     (if a = 0 \<and> k = ''__bar__'' then JRef 1
      else if a = Suc 0 \<and> k = ''__foos__'' then JArr [JRef 0, JRef 0] else JUndefined)"
  by (auto simp: c3_x2_def exec_defs demo_obs c3_x1_obs)

lemma c3_x3_run: "hasOneSet one_many Foo_bar JNull True 0 c3_x2 = (Inr (), c3_x3)"
  by (simp add: c3_x3_def exec_defs demo_obs c3_x2_obs)

lemma c3_x3_obs:
  "cls (heap c3_x3 a) = cls (heap two_fresh a)"
  "getSlot c3_x3 a k =
     (if a = 0 \<and> k = ''__bar__'' then JNull
      else if a = Suc 0 \<and> k = ''__foos__'' then JArr [JRef 0] else JUndefined)"
  by (auto simp: c3_x3_def exec_defs demo_obs c3_x2_obs)

text \<open>
  Claim C3, as amended. Let \<open>a\<close> have a \<open>hasOne\<close> association \<open>desc\<close> whose inverse \<open>iv\<close> is
  declared on the class of \<open>b\<close>. When \<open>a.prop = b\<close> returns, the inverse side of \<open>b\<close>
  references \<open>a\<close>: a \<open>hasOne\<close> inverse is \<open>a\<close>, a \<open>hasMany\<close> inverse contains \<open>a\<close>. When
  \<open>a\<close> was not its own partner before, clearing \<open>a.prop\<close> afterwards (any falsy value)
  sets a \<open>hasOne\<close> inverse to \<open>undefined\<close> and removes one occurrence of \<open>a\<close> from a
  \<open>hasMany\<close> inverse; the collection is then free of \<open>a\<close> when it did not hold \<open>a\<close> before
  the assignment.
\<close>

theorem hasOne_inverse_symmetry:
  assumes iv: "inv_of desc = Some iv"
    and d: "associations P (cls (heap s b)) iv = Some d"
    and st: "hasOneSet P desc (JRef b) True a s = (Inr (), s1)"
    and v: "\<not> truthy v"
    and cl: "hasOneSet P desc v True a s1 = (Inr (), s2)"
  shows "(atype d = HasOne \<longrightarrow>
            getSlot s1 b (key_of iv) = JRef a \<and>
            (getSlot s a (key_of (aname desc)) \<noteq> JRef a \<longrightarrow> getSlot s2 b (key_of iv) = JUndefined)) \<and>
         (atype d = HasMany \<longrightarrow>
            (\<exists>xs. hasManyRead iv b s1 = JArr xs \<and> JRef a \<in> set xs \<and>
               (getSlot s a (key_of (aname desc)) \<noteq> JRef a \<longrightarrow>
                  hasManyRead iv b s2 = JArr (remove1 (JRef a) xs) \<and>
                  (JRef a \<notin> set (elems (hasManyRead iv b s)) \<longrightarrow>
                   JRef a \<notin> set (elems (hasManyRead iv b s2))))))"
proof -
  let ?pre = "getSlot s a (key_of (aname desc)) \<noteq> JRef a"
  note after = hasOne_after_set[OF iv d st]
  show ?thesis
  proof (cases ?pre)
    case False
    with after show ?thesis by auto
  next
    case True
    note sr = hasOneSet_set_result[OF iv d st True]
    from sr have cur: "getSlot s1 a (key_of (aname desc)) = JRef b"
      and c: "\<And>x. cls (heap s1 x) = cls (heap s x)" by auto
    have d1: "associations P (cls (heap s1 b)) iv = Some d" using d c by simp
    note cr = hasOneSet_clear_result[OF iv d1 cur cl v]
    show ?thesis
    proof (cases "atype d")
      case HasOne
      with after cr show ?thesis by simp
    next
      case HasMany
      with sr obtain ys where ne: "(a, aname desc) \<noteq> (b, iv)"
        and ys: "hasManyRead iv b s = JArr ys"
        and xs: "hasManyRead iv b s1 =
           JArr ((if getSlot s a (key_of (aname desc)) = JRef b then remove1 (JRef a) ys else ys) @ [JRef a])"
        by auto
      let ?ys' = "if getSlot s a (key_of (aname desc)) = JRef b then remove1 (JRef a) ys else ys"
      from cr HasMany ne xs have s2: "hasManyRead iv b s2 = JArr (remove1 (JRef a) (?ys' @ [JRef a]))"
        by auto
      have "JRef a \<notin> set ys \<Longrightarrow> JRef a \<notin> set (remove1 (JRef a) (?ys' @ [JRef a]))"
        by (auto simp: remove1_append remove1_idem)
      with HasMany xs s2 ys show ?thesis by (simp add: elems_def)
    qed
  qed
qed

text \<open>The theorem at \<open>f.bar = b; f.bar = undefined\<close> on two fresh instances.\<close>

theorem hasOne_inverse_symmetry_witness:
  "hasManyRead ''foos'' 1 two_fresh = JArr [] \<and>
   hasManyRead ''foos'' 1 c3_w1 = JArr [JRef 0] \<and>
   hasManyRead ''foos'' 1 c3_w2 = JArr []"
proof -
  have iv: "inv_of Foo_bar = Some ''foos''" by (simp add: inv_of_def desc_fields)
  have d: "associations one_many (cls (heap two_fresh 1)) ''foos'' = Some Bar_foos"
    by (simp add: demo_obs)
  have v: "\<not> truthy JUndefined" by simp
  from hasOne_inverse_symmetry[OF iv d c3_w1_run v c3_w2_run]
  show ?thesis
    by (simp add: hasManyRead_def hasManyGet_def Let_def key_of_def demo_obs c3_w1_obs c3_w2_obs)
qed

text \<open>
  Claim C3 as stated fails: after \<open>b.addFoos(f, f); f.bar = b; f.bar = null\<close> the
  collection \<open>b.foos\<close> still holds \<open>f\<close>, although \<open>f.bar\<close> is cleared.
\<close>

theorem hasOne_clear_leaves_reference:
  "hasManyAdd one_many Bar_foos [JRef 0, JRef 0] True 1 two_fresh = (Inr (), c3_x1) \<and>
   hasOneSet one_many Foo_bar (JRef 1) True 0 c3_x1 = (Inr (), c3_x2) \<and>
   hasOneSet one_many Foo_bar JNull True 0 c3_x2 = (Inr (), c3_x3) \<and>
   getSlot c3_x3 0 ''__bar__'' = JNull \<and>
   hasManyRead ''foos'' 1 c3_x3 = JArr [JRef 0]"
  using c3_x1_run c3_x2_run c3_x3_run c3_x3_obs
  by (simp add: hasManyRead_def hasManyGet_def Let_def key_of_def)











section \<open>Assigning a hasMany property (claim C5)\<close>

lemma setSlot_same: "slots (heap s a) k = Some v \<Longrightarrow> setSlot a k v s = s"
  by (simp add: setSlot_def map_upd_triv)

lemma hasManyGet_state:
  "snd (hasManyGet n a s) = (if truthy (getSlot s a (key_of n)) then s else setSlot a (key_of n) (JArr []) s)"
proof (cases "truthy (getSlot s a (key_of n))")
  case True
  then obtain v where "slots (heap s a) (key_of n) = Some v"
    by (cases "slots (heap s a) (key_of n)") (auto simp: getSlot_def)
  then have "setSlot a (key_of n) (getSlot s a (key_of n)) s = s"
    by (simp add: setSlot_same getSlot_def)
  with True show ?thesis by (simp add: hasManyGet_def Let_def)
next
  case False
  then show ?thesis by (simp add: hasManyGet_def Let_def)
qed

lemma instanceof_setSlot: "instanceof P (setSlot a k v s) m c = instanceof P s m c"
  by (simp add: instanceof_def cls_setSlot split: jsval.splits)

lemma checkAll_fail:
  assumes "resolveClass P (klass desc) = Some c" and "\<exists>m\<in>set ms. \<not> instanceof P s m c"
  shows "checkAll P desc ms s = (Inl TypeMismatch, s)"
  using assms(2)
proof (induction ms)
  case Nil
  then show ?case by simp
next
  case (Cons m ms)
  show ?case
  proof (cases "instanceof P s m c")
    case True
    with Cons.prems have "\<exists>m\<in>set ms. \<not> instanceof P s m c" by simp
    from Cons.IH[OF this] True assms(1) show ?thesis
      by (simp add: checkAssociatedType_def monad_defs)
  next
    case False
    with assms(1) show ?thesis by (simp add: checkAssociatedType_def monad_defs)
  qed
qed

text \<open>
  The first half of claim C5: every element of the new array is checked before anything
  else happens. If the array holds a value that is not an instance of the target class,
  the assignment throws the type error, and the state differs from the one before at
  most by the empty array that reading the property has stored in a slot that was
  falsy: every \<open>hasMany\<close> property of every instance reads as before.
\<close>

theorem hasManySet_type_check_first:
  assumes it: "iterate a = Some ms"
    and rc: "resolveClass P (klass desc) = Some c"
    and bad: "\<exists>m\<in>set ms. \<not> instanceof P s m c"
  shows "hasManySet P desc a this s =
           (Inl TypeMismatch,
            if truthy (getSlot s this (key_of (aname desc))) then s
            else setSlot this (key_of (aname desc)) (JArr []) s) \<and>
         (\<forall>b n. hasManyRead n b (snd (hasManySet P desc a this s)) = hasManyRead n b s)"
proof -
  let ?k = "key_of (aname desc)"
  let ?s1 = "snd (hasManyGet (aname desc) this s)"
  have s1: "?s1 = (if truthy (getSlot s this ?k) then s else setSlot this ?k (JArr []) s)"
    by (rule hasManyGet_state)
  have "\<exists>m\<in>set ms. \<not> instanceof P ?s1 m c"
    using bad by (simp add: s1 instanceof_setSlot)
  from checkAll_fail[OF rc this] have "checkAll P desc ms ?s1 = (Inl TypeMismatch, ?s1)" .
  then have r: "hasManySet P desc a this s = (Inl TypeMismatch, ?s1)"
    using it by (cases "hasManyGet (aname desc) this s") (simp add: hasManySet_def andThen_def)
  have "\<And>b n. hasManyRead n b ?s1 = hasManyRead n b s"
    by (auto simp: s1 hasManyRead_alt getSlot_setSlot key_of_inj)
  with r s1 show ?thesis by simp
qed

lemma friends_obs:
  "associations friends ''Foo'' ''friends'' = Some Foo_friends"
  "chain friends ''Foo'' = [''Foo'']"
  "atype Foo_friends = HasMany" "aname Foo_friends = ''friends''"
  "klass Foo_friends = ByClass ''Foo''" "inverse_name Foo_friends = Some ''friends''"
  by (simp_all add: associations_def all_members_def chain_def friends_def Foo_friends_def)

lemma two_foos_obs: "cls (heap two_foos a) = ''Foo''" "getSlot two_foos a k = JUndefined"
  by (simp_all add: two_foos_def getSlot_def)

lemmas set_defs = hasManySet_def iterate_def

lemma c5_s1_run:
  "hasManySet friends Foo_friends (JArr [JRef 0, JRef 1]) 0 two_foos = (Inr (), c5_s1)"
  by (simp add: c5_s1_def set_defs exec_defs friends_obs two_foos_obs)

lemma c5_s1_obs:
  "cls (heap c5_s1 a) = ''Foo''"
  "getSlot c5_s1 a k =
     (if a = 0 \<and> k = ''__friends__'' then JArr [JRef 0, JRef 1]
      else if a = Suc 0 \<and> k = ''__friends__'' then JArr [JRef 0] else JUndefined)"
  by (auto simp: c5_s1_def set_defs exec_defs friends_obs two_foos_obs)

lemma c5_s2_run:
  "hasManySet friends Foo_friends (JArr []) 0 c5_s1 = (Inr (), c5_s2)"
  by (simp add: c5_s2_def set_defs exec_defs friends_obs c5_s1_obs)

lemma c5_s2_obs:
  "getSlot c5_s2 a k =
     (if a = 0 \<and> k = ''__friends__'' then JArr []
      else if a = Suc 0 \<and> k = ''__friends__'' then JArr [JRef 0] else JUndefined)"
  by (auto simp: c5_s2_def set_defs exec_defs friends_obs c5_s1_obs)

text \<open>
  Claim C5 at \<open>f.friends = [f, g]; f.friends = []\<close>, where \<open>friends\<close> is its own
  inverse. The second assignment walks the array \<open>[f, g]\<close> while detaching \<open>f\<close> removes
  \<open>f\<close> from that same array, so the walk ends before it reaches \<open>g\<close>: \<open>g\<close> is no longer
  a friend of \<open>f\<close>, and \<open>g.friends\<close> still holds \<open>f\<close>.
\<close>

theorem hasManySet_skips_member:
  "hasManySet friends Foo_friends (JArr [JRef 0, JRef 1]) 0 two_foos = (Inr (), c5_s1) \<and>
   hasManyRead ''friends'' 0 c5_s1 = JArr [JRef 0, JRef 1] \<and>
   hasManyRead ''friends'' 1 c5_s1 = JArr [JRef 0] \<and>
   hasManySet friends Foo_friends (JArr []) 0 c5_s1 = (Inr (), c5_s2) \<and>
   hasManyRead ''friends'' 0 c5_s2 = JArr [] \<and>
   hasManyRead ''friends'' 1 c5_s2 = JArr [JRef 0]"
  using c5_s1_run c5_s2_run
  by (simp add: hasManyRead_def hasManyGet_def Let_def key_of_def c5_s1_obs c5_s2_obs)

text \<open>The theorem at \<open>f.bars = [f]\<close>, where \<open>f\<close> is a \<open>Foo\<close> and \<open>bars\<close> holds \<open>Bar\<close>s.\<close>

theorem hasManySet_type_check_first_witness:
  "hasManySet many_many Foo_bars (JArr [JRef 0]) 0 two_fresh =
     (Inl TypeMismatch, setSlot 0 ''__bars__'' (JArr []) two_fresh)"
proof -
  have it: "iterate (JArr [JRef 0]) = Some [JRef 0]" by (simp add: iterate_def)
  have rc: "resolveClass many_many (klass Foo_bars) = Some ''Bar''"
    by (simp add: resolveClass_def demo_obs)
  have bad: "\<exists>m\<in>set [JRef 0]. \<not> instanceof many_many two_fresh m ''Bar''"
    by (simp add: instanceof_def demo_obs)
  from hasManySet_type_check_first[OF it rc bad, of 0]
  show ?thesis by (simp add: demo_obs key_of_def)
qed

section \<open>The loader (claims C1, C2 and C7)\<close>

lemma pres_notifyRemoved:
  assumes "preorder R" "\<And>b n. declared_assoc P n \<Longrightarrow> writes R b (key_of n)"
  shows "pres R (notifyRemoved P desc sync this m)"
  unfolding notifyRemoved_def
  by (auto split: option.splits intro!: pres_ok pres_inverseRemoved assms)

lemma pres_notifyAdded:
  assumes "preorder R" "\<And>b n. declared_assoc P n \<Longrightarrow> writes R b (key_of n)"
  shows "pres R (notifyAdded P desc sync this m)"
  unfolding notifyAdded_def
  by (auto split: option.splits intro!: pres_ok pres_inverseAdded assms)

lemma pres_hasOneSet:
  assumes "preorder R" "writes R this (key_of (aname desc))"
    "\<And>b n. declared_assoc P n \<Longrightarrow> writes R b (key_of n)"
  shows "pres R (hasOneSet P desc v sync this)"
  unfolding hasOneSet_def
  by (intro pres_hasOneSet_body pres_notifyRemoved pres_notifyAdded assms)

lemma pres_hasManyAdd:
  assumes "preorder R" "writes R this (key_of (aname desc))"
    "\<And>b n. declared_assoc P n \<Longrightarrow> writes R b (key_of n)"
  shows "pres R (hasManyAdd P desc ms sync this)"
  unfolding hasManyAdd_def
  by (intro pres_hasManyAdd_body pres_notifyAdded assms)

lemma pres_hasManyRemove:
  assumes "preorder R" "writes R this (key_of (aname desc))"
    "\<And>b n. declared_assoc P n \<Longrightarrow> writes R b (key_of n)"
  shows "pres R (hasManyRemove P desc ms sync this)"
  unfolding hasManyRemove_def
  by (intro pres_hasManyRemove_body pres_notifyRemoved assms)

lemma pres_checkAll: "preorder R \<Longrightarrow> pres R (checkAll P desc ms)"
proof (induction ms)
  case Nil
  have "checkAll P desc [] = ok ()" by (rule ext) simp
  with Nil show ?case by (simp add: pres_ok)
next
  case (Cons m ms)
  have "checkAll P desc (m # ms) = andThen (checkAssociatedType P desc m) (\<lambda>_. checkAll P desc ms)"
    by (rule ext) simp
  with Cons show ?case by (simp add: pres_andThen pres_checkAssociatedType)
qed

lemma pres_attach_loop:
  assumes "preorder R" "\<And>b n. declared_assoc P n \<Longrightarrow> writes R b (key_of n)"
  shows "pres R (attach_loop P iv this ms)"
proof (induction ms)
  case Nil
  have "attach_loop P iv this [] = ok ()" by (rule ext) simp
  then show ?case by (simp add: pres_ok assms)
next
  case (Cons m ms)
  have "attach_loop P iv this (m # ms) =
        andThen (inverseAdded P m iv this) (\<lambda>_. attach_loop P iv this ms)" by (rule ext) simp
  then show ?case
    by (simp only:) (intro pres_andThen pres_inverseAdded assms Cons.IH)
qed

lemma pres_detach_loop:
  assumes "preorder R" "\<And>b n. declared_assoc P n \<Longrightarrow> writes R b (key_of n)"
  shows "pres R (detach_loop P iv this key n i)"
proof (induction n arbitrary: i)
  case 0
  have "detach_loop P iv this key 0 i = ok ()" by (rule ext) simp
  then show ?case by (simp add: pres_ok assms)
next
  case (Suc n)
  show ?case unfolding pres_def
  proof (intro allI impI)
    fix s r s'
    assume a: "detach_loop P iv this key (Suc n) i s = (r, s')"
    have rf: "R s s" using assms(1) by (simp add: preorder_def)
    show "R s s'"
    proof (cases "\<exists>xs. getSlot s this key = JArr xs \<and> i < length xs")
      case True
      then obtain xs where xs: "getSlot s this key = JArr xs" "i < length xs" by blast
      let ?m = "andThen (inverseRemoved P (xs ! i) iv this) (\<lambda>_. detach_loop P iv this key n (Suc i))"
      from a xs have "?m s = (r, s')" by simp
      moreover have "pres R ?m" by (intro pres_andThen pres_inverseRemoved assms Suc.IH)
      ultimately show ?thesis by (rule presD[rotated])
    next
      case False
      with a have "s' = s" by (auto simp: ok_def split: jsval.splits if_splits)
      with rf show ?thesis by simp
    qed
  qed
qed

lemma pres_hasManySet:
  assumes "preorder R" "writes R this (key_of (aname desc))"
    "\<And>b n. declared_assoc P n \<Longrightarrow> writes R b (key_of n)"
  shows "pres R (hasManySet P desc a this)"
  unfolding pres_def
proof (intro allI impI)
  fix s r s'
  assume h: "hasManySet P desc a this s = (r, s')"
  let ?k = "key_of (aname desc)"
  let ?prev = "hasManyRead (aname desc) this s"
  let ?s1 = "setSlot this ?k ?prev s"
  have R1: "R s ?s1" using assms(2) by (simp add: writes_def)
  have tr: "\<And>t u. R s t \<Longrightarrow> R t u \<Longrightarrow> R s u" using assms(1) unfolding preorder_def by blast
  show "R s s'"
  proof (cases "iterate a")
    case None
    with h have "s' = ?s1" by (simp add: hasManySet_def hasManyGet_eq throw_def)
    with R1 show ?thesis by simp
  next
    case (Some ms)
    let ?mid = "case inv_of desc of None \<Rightarrow> ok ()
                | Some iv \<Rightarrow> (case ?prev of
                     JArr xs \<Rightarrow> andThen (detach_loop P iv this ?k (length xs) 0) (\<lambda>_. attach_loop P iv this ms)
                   | _ \<Rightarrow> throw JSTypeError)"
    let ?m = "andThen (checkAll P desc ms) (\<lambda>_. andThen ?mid (\<lambda>_. modify (setSlot this ?k a)))"
    from h Some have "?m ?s1 = (r, s')" by (simp add: hasManySet_def hasManyGet_eq)
    moreover have "pres R ?mid"
      by (auto split: option.splits jsval.splits
          intro!: pres_ok pres_throw pres_andThen pres_detach_loop pres_attach_loop assms)
    then have "pres R ?m"
      by (intro pres_andThen pres_checkAll pres_modify assms)
    ultimately have "R ?s1 s'" by (rule presD[rotated])
    from tr[OF R1 this] show ?thesis .
  qed
qed

lemma pres_attrSet:
  assumes "preorder R" "writes R this (key_of k)" "writes R this (k @ ''BeforeCoercion'')"
  shows "pres R (attrSet coerce k v this)"
  unfolding pres_def
proof (intro allI impI)
  fix s r s'
  assume h: "attrSet coerce k v this s = (r, s')"
  have rf: "R s s" using assms(1) by (simp add: preorder_def)
  have tr: "\<And>t u. R s t \<Longrightarrow> R t u \<Longrightarrow> R s u" using assms(1) unfolding preorder_def by blast
  show "R s s'"
  proof (cases "coerce v")
    case (Inl e)
    with h rf show ?thesis by (simp add: attrSet_def throw_def)
  next
    case (Inr w)
    with h have "s' = setSlot this (k @ ''BeforeCoercion'') v (setSlot this (key_of k) w s)"
      by (simp add: attrSet_def ok_def)
    with assms(2,3) tr show ?thesis unfolding writes_def by blast
  qed
qed

text \<open>An assignment \<open>model[k] = v\<close> with \<open>k\<close> other than \<open>id\<close>.\<close>

lemma pres_setProp:
  assumes "preorder R" "k \<noteq> ''id''"
    "writes R this (key_of k)" "writes R this (k @ ''BeforeCoercion'')"
    "\<And>b n. declared_assoc P n \<Longrightarrow> writes R b (key_of n)"
    "\<And>s. find_prop P (cls (heap s this)) k = None \<Longrightarrow> R s (setSlot this k v s)"
  shows "pres R (setProp P k v this)"
  unfolding pres_def
proof (intro allI impI)
  fix s r s'
  assume h: "setProp P k v this s = (r, s')"
  have rf: "R s s" using assms(1) by (simp add: preorder_def)
  show "R s s'"
  proof (cases "find_prop P (cls (heap s this)) k")
    case None
    with h assms(2) rf assms(6)[OF None] show ?thesis
      by (auto simp: setProp_def throw_def ok_def split: if_splits)
  next
    case (Some m)
    show ?thesis
    proof (cases m)
      case (Attr coerce dflt)
      with h Some have "attrSet coerce k v this s = (r, s')" by (simp add: setProp_def)
      from presD[OF pres_attrSet[OF assms(1,3,4)] this] show ?thesis .
    next
      case (Assoc t rf i)
      let ?d = "\<lparr>atype = t, aname = k, klass = rf, inverse_name = i\<rparr>"
      have w: "writes R this (key_of (aname ?d))" using assms(3) by simp
      show ?thesis
      proof (cases t)
        case HasOne
        with h Some Assoc have "hasOneSet P \<lparr>atype = HasOne, aname = k, klass = rf, inverse_name = i\<rparr> v True this s = (r, s')"
          by (simp add: setProp_def)
        moreover have "pres R (hasOneSet P \<lparr>atype = HasOne, aname = k, klass = rf, inverse_name = i\<rparr> v True this)"
          by (rule pres_hasOneSet) (use assms in auto)
        ultimately show ?thesis by (rule presD[rotated])
      next
        case HasMany
        with h Some Assoc have "hasManySet P \<lparr>atype = HasMany, aname = k, klass = rf, inverse_name = i\<rparr> v this s = (r, s')"
          by (simp add: setProp_def)
        moreover have "pres R (hasManySet P \<lparr>atype = HasMany, aname = k, klass = rf, inverse_name = i\<rparr> v this)"
          by (rule pres_hasManySet) (use assms in auto)
        ultimately show ?thesis by (rule presD[rotated])
      qed
    qed
  qed
qed

lemma slots_setSlot:
  "slots (heap (setSlot a k v s) b) j = (if b = a \<and> j = k then Some v else slots (heap s b) j)"
  by (simp add: setSlot_def)










lemma assign_all_Nil: "assign_all P this [] s = (r, s') \<Longrightarrow> s' = s \<and> r = Inr ()"
  by (auto simp: ok_def)








lemma allocate_obs:
  "cls (heap (allocate c s) a) = (if a = nxt s then c else cls (heap s a))"
  "slots (heap (allocate c s) a) k = (if a = nxt s then None else slots (heap s a) k)"
  "getSlot (allocate c s) a k = (if a = nxt s then JUndefined else getSlot s a k)"
  "ids (allocate c s) = ids s"
  "nxt (allocate c s) = Suc (nxt s)"
  by (simp_all add: allocate_def getSlot_def)

lemma IdMap_insert_obs:
  "cls (heap (IdMap_insert a s) b) = cls (heap s b)"
  "slots (heap (IdMap_insert a s) b) k = slots (heap s b) k"
  "ids (IdMap_insert a s) = (ids s)((cls (heap s a), getSlot s a ''__id__'') \<mapsto> a)"
  "nxt (IdMap_insert a s) = nxt s"
  by (simp_all add: IdMap_insert_def)








lemma no_instances_obs:
  "cls (heap no_instances a) = ''Object''" "slots (heap no_instances a) k = None"
  "getSlot no_instances a k = JUndefined" "ids no_instances = Map.empty" "nxt no_instances = 0"
  by (simp_all add: no_instances_def getSlot_def)

lemma basic_obs:
  "find_prop basic ''BasicModel'' k =
     (if k = ''flag'' then Some (Attr BooleanAttr_coerce JUndefined)
      else if k = ''str'' then Some (Attr IdentityAttr_coerce JUndefined) else None)"
  "all_members basic ''BasicModel'' =
     [(''flag'', Attr BooleanAttr_coerce JUndefined), (''str'', Attr IdentityAttr_coerce JUndefined)]"
  "associations basic c n = None"
  by (auto simp: find_prop_def all_members_def chain_def basic_def associations_def split: option.splits)

lemma blog_obs:
  "find_prop blog ''Post'' k =
     (if k = ''tags'' then Some (Assoc HasMany (ByName ''Tag'') (Some ''posts''))
      else if k = ''author'' then Some (Assoc HasOne (ByName ''Author'') (Some ''posts'')) else None)"
  "all_members blog ''Post'' =
     [(''tags'', Assoc HasMany (ByName ''Tag'') (Some ''posts'')),
      (''author'', Assoc HasOne (ByName ''Author'') (Some ''posts''))]"
  "registeredClasses blog ''Author'' = Some ''Author''"
  "registeredClasses blog ''Tag'' = Some ''Tag''"
  "chain blog ''Post'' = [''Post'']"
  by (auto simp: find_prop_def all_members_def chain_def blog_def)

lemmas load_defs = load_def getProp_def payload_get_def construct_def new_inst_def assign_all.simps inModel_def
  setProp_def attrSet_def set_id_def get_id_def IdMap_get_def builtin_names_def
  IdentityAttr_coerce_def BooleanAttr_coerce_def LOADED_def
  allocate_obs IdMap_insert_obs getSlot_IdMap_insert slots_setSlot ids_setSlot nxt_setSlot hasManySet_def iterate_def

lemma c1_s1_run:
  "load basic ''BasicModel'' [(''id'', JNum 200), (''str'', JStr ''s1'')] no_instances = (Inr 0, c1_s1)"
  by (simp add: c1_s1_def load_defs exec_defs no_instances_obs basic_obs)

lemma c1_s1_obs:
  "cls (heap c1_s1 a) = (if a = 0 then ''BasicModel'' else ''Object'')"
  "slots (heap c1_s1 a) k =
     (if a = 0 \<and> k = ''__str__'' then Some (JStr ''s1'')
      else if a = 0 \<and> k = ''strBeforeCoercion'' then Some (JStr ''s1'')
      else if a = 0 \<and> k = ''__id__'' then Some (JNum 200)
      else if a = 0 \<and> k = ''__sourceState__'' then Some LOADED
      else if a = 0 \<and> k = ''__isBusy__'' then Some (JBool False) else None)"
  "ids c1_s1 = [(''BasicModel'', JNum 200) \<mapsto> 0]"
  by (auto simp: c1_s1_def load_defs exec_defs no_instances_obs basic_obs)


lemma c1_s2_obs:
  "getSlot c1_s2 0 ''__str__'' = JStr ''s2''"
  by (simp add: c1_s2_def load_defs exec_defs c1_s1_obs basic_obs getSlot_def)



text \<open>
  Claim C7. A payload with no \<open>id\<close> key makes \<open>load\<close> throw the missing-identity error
  at once, in the state it was called in: nothing is allocated, written or registered.
\<close>

theorem load_requires_id:
  assumes "''id'' \<notin> fst ` set attrs"
  shows "load P c attrs s = (Inl MissingIdentity, s)"
proof -
  from assms have "map_of attrs ''id'' = None" by (simp add: map_of_eq_None_iff)
  then show ?thesis by (simp add: load_def payload_get_def throw_def)
qed

text \<open>The theorem at \<open>BasicModel.load({str: 's'})\<close>.\<close>

theorem load_requires_id_witness:
  "load basic ''BasicModel'' [(''str'', JStr ''s'')] no_instances = (Inl MissingIdentity, no_instances)"
proof -
  have "''id'' \<notin> fst ` set [(''str'', JStr ''s'')]" by simp
  then show ?thesis by (rule load_requires_id)
qed



lemma load_falsy_id:
  "\<not> truthy (payload_get attrs ''id'') \<Longrightarrow> load P c attrs s = (Inl MissingIdentity, s)"
  by (simp add: load_def throw_def)

text \<open>
  Claim C2 at the payloads of the test suite. The loader passes the value of an
  association key to the setter of the property as it is: a nested payload object, a
  bare id and an array of payloads are not instances of the target class, and the load
  throws the type error; no \<open>Author\<close> 9 is loaded. A key \<open>authorId\<close> names no property
  of the instance and is passed over: the load returns and \<open>author\<close> stays \<open>undefined\<close>.
\<close>

theorem load_does_not_resolve_associations:
  "fst (load blog ''Post'' nested_author no_instances) = Inl TypeMismatch \<and>
   IdMap_get (snd (load blog ''Post'' nested_author no_instances)) ''Author'' (JNum 9) = None \<and>
   fst (load blog ''Post'' author_by_id no_instances) = Inl TypeMismatch \<and>
   fst (load blog ''Post'' nested_tags no_instances) = Inl TypeMismatch \<and>
   fst (load blog ''Post'' author_by_key no_instances) = Inr 0 \<and>
   getSlot (snd (load blog ''Post'' author_by_key no_instances)) 0 ''__author__'' = JUndefined"
  by (simp add: nested_author_def author_by_id_def author_by_key_def nested_tags_def
      load_defs exec_defs no_instances_obs blog_obs checkAll.simps)

section \<open>The query array (claims C6 and C8)\<close>

lemmas promise_defs =
  query_def callMapper_def new_promise_def then_p_def add_reaction_def enqueue_def settle_def
  resolve_with_def run_job_def respond_def then_q_def catch_q_def queued_value_def Let_def

lemma default_opts_idem: "default_opts (default_opts v) = default_opts v"
  by (simp add: default_opts_def)

lemma drain_numeral:
  "drain P c 2 w = drain P c (Suc (Suc 0)) w"
  "drain P c 3 w = drain P c (Suc (Suc (Suc 0))) w"
  "drain P c 5 w = drain P c (Suc (Suc (Suc (Suc (Suc 0))))) w"
  by (simp_all add: eval_nat_numeral)

text \<open>
  Claim C8. The array is idle with no job waiting and the mapper returns promises.
  \<open>a.query(arg)\<close> returns; a caller attaches \<open>a.then(f1, f2)\<close> and another \<open>a.catch(f)\<close>;
  the mapper rejects the promise of this request with \<open>e\<close>, and the jobs run. Then the
  array is not busy, \<open>error\<close> is \<open>e\<close>, the elements and the model instances are as before
  the query, the rejection callbacks have been called with \<open>e\<close> (that of \<open>then\<close> if it
  was given one) and no fulfilment callback has, the promise of the array is rejected
  with \<open>e\<close>, and no job is left.
\<close>

theorem query_rejection:
  assumes "\<not> busy w" and "jobs w = []" and "mapper_of w = ReturnsPromise"
    and "w' = drain P c 3 (respond (length (requests w)) (Rejected e)
                 (snd (catch_q j (snd (then_q i f1 f2 (snd (query arg w)))))))"
  shows "fst (query arg w) = Inr () \<and> calls w' = calls w @ [default_opts arg] \<and>
         \<not> busy w' \<and> error_of w' = Some e \<and>
         elements w' = elements w \<and> models w' = models w \<and>
         heard w' = heard w @ (if f2 then [(i, Rejected e)] else []) @ [(j, Rejected e)] \<and>
         settled (promises w' (current w')) = Some (Rejected e) \<and> jobs w' = []"
  using assms by (simp add: promise_defs drain_numeral nth_append)

theorem query_rejection_witness:
  "\<not> busy (new_QueryArray ReturnsPromise c1_s1) \<and>
   jobs (new_QueryArray ReturnsPromise c1_s1) = [] \<and>
   mapper_of (new_QueryArray ReturnsPromise c1_s1) = ReturnsPromise \<and>
   (let w' = drain basic ''BasicModel'' 3 (respond 0 (Rejected (JStr ''foo''))
               (snd (catch_q 1 (snd (then_q 0 True True (snd (query JUndefined
                  (new_QueryArray ReturnsPromise c1_s1))))))))
    in calls w' = [JObj []] \<and> \<not> busy w' \<and> error_of w' = Some (JStr ''foo'') \<and>
       elements w' = [] \<and> models w' = c1_s1 \<and>
       heard w' = [(0, Rejected (JStr ''foo'')), (1, Rejected (JStr ''foo''))] \<and>
       settled (promises w' (current w')) = Some (Rejected (JStr ''foo'')) \<and> jobs w' = [])"
  using query_rejection [of "new_QueryArray ReturnsPromise c1_s1" _ basic "''BasicModel''"
      "JStr ''foo''" 1 0 True True JUndefined, OF _ _ _ refl]
  by (simp add: new_QueryArray_def default_opts_def Let_def)

text \<open>
  The requests that come while the array is busy, when the request in flight is
  fulfilled. The array is idle with no job waiting and nothing queued, and the mapper
  returns promises. Of \<open>a.query(o1); a.query(o2); a.query(o3)\<close>, where the options of the
  second call are truthy, only the first calls the mapper. When the mapper fulfils the
  promise of the first request with an array that \<open>loadAll\<close> loads, and the jobs have
  run, the mapper has been called a second time, with the options of the third call;
  the options of the second call were never passed to it; the array holds the loaded
  instances and is busy with the second request; nothing is queued and no job is left.
\<close>

theorem query_coalesces:
  assumes "\<not> busy w" and "jobs w = []" and "queued w = None"
    and "mapper_of w = ReturnsPromise"
    and "truthy (default_opts o2)"
    and "loadAll P c os (models w) = (Inr as, m1)"
    and "w3 = snd (query o3 (snd (query o2 (snd (query o1 w)))))"
    and "w' = drain P c 3 (respond (length (requests w)) (Fulfilled (JArr os)) w3)"
  shows "calls w3 = calls w @ [default_opts o1] \<and>
         calls w' = calls w @ [default_opts o1, default_opts o3] \<and>
         busy w' \<and> queued w' = None \<and> error_of w' = None \<and>
         elements w' = map JRef as \<and> models w' = m1 \<and> jobs w' = []"
  using assms by (simp add: promise_defs drain_numeral nth_append default_opts_idem)

theorem query_coalesces_witness:
  "\<not> busy (new_QueryArray ReturnsPromise no_instances) \<and>
   jobs (new_QueryArray ReturnsPromise no_instances) = [] \<and>
   queued (new_QueryArray ReturnsPromise no_instances) = None \<and>
   mapper_of (new_QueryArray ReturnsPromise no_instances) = ReturnsPromise \<and>
   truthy (default_opts (foo 2)) \<and>
   loadAll basic ''BasicModel'' [JObj [(''id'', JNum 200), (''str'', JStr ''s1'')]] no_instances
     = (Inr [0], c1_s1) \<and>
   calls c6_w3 = [foo 1] \<and>
   (let w' = drain basic ''BasicModel'' 3
               (respond 0 (Fulfilled (JArr [JObj [(''id'', JNum 200), (''str'', JStr ''s1'')]])) c6_w3)
    in calls w' = [foo 1, foo 3] \<and> busy w' \<and> queued w' = None \<and> error_of w' = None \<and>
       elements w' = [JRef 0] \<and> models w' = c1_s1 \<and> jobs w' = [])"
proof -
  have ld: "loadAll basic ''BasicModel'' [JObj [(''id'', JNum 200), (''str'', JStr ''s1'')]]
              (models (new_QueryArray ReturnsPromise no_instances)) = (Inr [0], c1_s1)"
    by (simp add: c1_s1_run new_QueryArray_def)
  have tr: "truthy (default_opts (foo 2))" by (simp add: default_opts_def foo_def)
  show ?thesis
    using query_coalesces [of "new_QueryArray ReturnsPromise no_instances" "foo 2" basic
        "''BasicModel''" _ "[0]" c1_s1 c6_w3 "foo 3" "foo 1" _, OF _ _ _ _ tr ld _ refl] ld tr
    by (simp add: new_QueryArray_def default_opts_def foo_def Let_def c6_w3_def)
qed

text \<open>
  Claim C6 at the test suite's scenario, with the request in flight rejected instead of
  fulfilled. The callback that issues the queued request is attached with \<open>then\<close> and
  no rejection callback, so the rejection passes it by: the mapper has been called once,
  with \<open>{foo: 1}\<close>, the array is idle, no job is left, and \<open>{foo: 3}\<close> stays in
  \<open>__queued__\<close>. Since \<open>__queued__\<close> is still set, the next request that comes while the
  array is busy attaches no callback either: of \<open>a.query({foo: 4}); a.query({foo: 5})\<close>
  the first calls the mapper, and after the mapper has fulfilled that request the
  second has still not been issued.
\<close>

theorem query_rejected_drops_queued:
  "calls c6_w3 = [foo 1] \<and>
   calls c6_rejected = [foo 1] \<and> \<not> busy c6_rejected \<and> jobs c6_rejected = [] \<and>
   queued c6_rejected = Some (foo 3) \<and> error_of c6_rejected = Some (JStr ''foo'') \<and>
   calls c6_later = [foo 1, foo 4] \<and> \<not> busy c6_later \<and> jobs c6_later = [] \<and>
   queued c6_later = Some (foo 5)"
  by (simp add: c6_later_def c6_rejected_def c6_w3_def new_QueryArray_def promise_defs
      drain_numeral default_opts_def foo_def)

end
